theory Spec2Isabelle
  imports Main "HOL-Library.Word"
begin

section \<open>Data model of hscontrol/db/node.go\<close>

text \<open>
  The node registry of the control plane: the functions of \<^verbatim>\<open>hscontrol/db/node.go\<close>
  over the tables they read and write through \<^verbatim>\<open>gorm\<close>. Identifiers (\<^verbatim>\<open>uint64\<close>)
  are natural numbers, a \<^verbatim>\<open>time.Time\<close> is an integer count of clock units, keys
  are the strings their \<^verbatim>\<open>String()\<close> method prints, and a Go pointer that may be
  \<^verbatim>\<open>nil\<close> is an \<open>option\<close>.
\<close>

type_synonym Time = int

text \<open>A \<^verbatim>\<open>netip.Addr\<close>: the 32 bits of an IPv4 address or the 128 bits of an IPv6 address.\<close>

datatype Addr = IPv4 "32 word" | IPv6 "128 word"

text \<open>A \<^verbatim>\<open>netip.Prefix\<close>: an address and a prefix length.\<close>

datatype Prefix = Prefix Addr nat

datatype error =
    ErrNodeNotFound
  | ErrNodeRouteIsNotAvailable
  | ErrNodeNotFoundRegistrationCache
  | ErrCouldNotConvertNodeInterface
  | ErrDifferentRegisteredUser
  | ErrUserNotFound
  | ErrRecordNotFound
  | ErrMissingWhereClause
  | ErrStorage
  | ErrParsePrefix
  | ErrInvalidName
  | ErrRandom
  | ErrAddressPoolExhausted
  | Wrapped string error

text \<open>\<^verbatim>\<open>errors.Is\<close>: the error itself, or something it wraps with \<^verbatim>\<open>%w\<close>.\<close>

fun errors_Is :: "error \<Rightarrow> error \<Rightarrow> bool" where
  "errors_Is (Wrapped msg e) target = (Wrapped msg e = target \<or> errors_Is e target)"
| "errors_Is e target = (e = target)"

text \<open>
  Modelled from the spec: the structs of package types (\<^verbatim>\<open>User\<close>, \<^verbatim>\<open>Route\<close>,
  \<^verbatim>\<open>Node\<close>, \<^verbatim>\<open>StateUpdate\<close>) are not in the sources. Their fields are those of
  the spec's data model and persisted schema that this file reads or writes; a field name
  two structs share carries the struct's name. \<open>Routes\<close> is the association that
  \<^verbatim>\<open>Preload\<close> fills, kept in memory only.
\<close>

record User =
  User_ID :: nat
  User_Name :: string

record Route =
  Route_ID :: nat
  NodeID :: nat
  Route_Prefix :: Prefix
  Advertised :: bool
  Enabled :: bool
  IsPrimary :: bool

record Node =
  ID :: nat
  MachineKey :: string
  NodeKey :: string
  UserID :: nat
  Hostname :: string
  GivenName :: string
  IPAddresses :: "Addr list"
  ForcedTags :: "string list"
  Expiry :: "Time option"
  LastSeen :: "Time option"
  Ephemeral :: bool
  RegisterMethod :: string
  Routes :: "Route list"

datatype StateUpdateType =
  StateZero | StatePeerChanged | StatePeerRemoved | StatePeerChangedPatch

text \<open>A \<^verbatim>\<open>tailcfg.PeerChange\<close> as this file builds it: identifier and key expiry.\<close>

record PeerChange =
  PeerChange_NodeID :: nat
  KeyExpiry :: "Time option"

record StateUpdate =
  Type :: StateUpdateType
  ChangeNodes :: "Node list"
  Removed :: "nat list"
  ChangePatches :: "PeerChange list"
  Message :: string

text \<open>The zero value \<^verbatim>\<open>types.StateUpdate{}\<close>.\<close>

definition StateUpdate_zero :: StateUpdate where
  "StateUpdate_zero =
     \<lparr>Type = StateZero, ChangeNodes = [], Removed = [], ChangePatches = [], Message = []\<rparr>"

subsection \<open>The store, its failures and the clock\<close>

text \<open>
  What \<^verbatim>\<open>tx *gorm.DB\<close> and \<^verbatim>\<open>time.Now()\<close> stand on. The tables are lists of rows in
  primary-key order (soft-deleted rows are not in them). Every statement sent to the
  store may fail: \<open>faults\<close> is the schedule of outcomes, one entry consumed per
  statement, \<open>True\<close> for a statement that returns an error and changes nothing; an
  exhausted schedule means no further failure. The clock never runs backwards: each
  reading advances it by the next entry of \<open>ticks\<close> (by nothing once they are used up).
\<close>

record State =
  nodes :: "Node list"
  routes :: "Route list"
  users :: "User list"
  faults :: "bool list"
  clock :: Time
  ticks :: "nat list"

definition gorm_op :: "State \<Rightarrow> bool \<times> State" where
  "gorm_op tx = (case faults tx of [] \<Rightarrow> (False, tx) | f # fs \<Rightarrow> (f, tx\<lparr>faults := fs\<rparr>))"

definition time_Now :: "State \<Rightarrow> Time \<times> State" where
  "time_Now tx =
     (case ticks tx of
        [] \<Rightarrow> (clock tx, tx)
      | d # ds \<Rightarrow> (clock tx + int d, tx\<lparr>clock := clock tx + int d, ticks := ds\<rparr>))"

text \<open>\<^verbatim>\<open>time.Unix(0, 0)\<close>: the clock counts from the Unix epoch.\<close>

definition time_Unix_0_0 :: Time where
  "time_Unix_0_0 = 0"

text \<open>\<^verbatim>\<open>Preload("Routes")\<close>: a node read from the store carries its route rows.\<close>

definition preload :: "State \<Rightarrow> Node \<Rightarrow> Node" where
  "preload tx n = n\<lparr>Routes := filter (\<lambda>r. NodeID r = ID n) (routes tx)\<rparr>"

text \<open>
  \<^verbatim>\<open>tx.Model(&types.Node{}).Where("id = ?", nodeID).Update(column, value)\<close>: one
  statement; every row with that identifier gets the column, and no row matching is
  not an error.
\<close>

definition Update_where_id :: "State \<Rightarrow> nat \<Rightarrow> (Node \<Rightarrow> Node) \<Rightarrow> error option \<times> State" where
  "Update_where_id tx nodeID f =
     (let (failed, tx1) = gorm_op tx in
      if failed then (Some ErrStorage, tx1)
      else (None, tx1\<lparr>nodes := map (\<lambda>r. if ID r = nodeID then f r else r) (nodes tx1)\<rparr>))"

subsection \<open>Helpers of package util\<close>

text \<open>
  Modelled from the spec: \<^verbatim>\<open>util.StringOrPrefixListContains\<close> is not in the sources.
  The spec has forced tags deduplicated and a requested prefix looked up in the
  advertised set with it: it tells whether the list holds the element.
\<close>

fun StringOrPrefixListContains :: "'a list \<Rightarrow> 'a \<Rightarrow> bool" where
  "StringOrPrefixListContains [] t = False"
| "StringOrPrefixListContains (v # ts) t = (if v = t then True else StringOrPrefixListContains ts t)"

section \<open>SetTags\<close>

text \<open>The loop of \<^verbatim>\<open>SetTags\<close> that drops repeated tags, \<open>newTags\<close> its accumulator.\<close>

fun SetTags_newTags :: "string list \<Rightarrow> string list \<Rightarrow> string list" where
  "SetTags_newTags [] newTags = newTags"
| "SetTags_newTags (tag # tags) newTags =
     SetTags_newTags tags
       (if \<not> StringOrPrefixListContains newTags tag then newTags @ [tag] else newTags)"

definition SetTags :: "State \<Rightarrow> nat \<Rightarrow> string list \<Rightarrow> error option \<times> State" where
  "SetTags tx nodeID tags =
     (if length tags = 0 then (None, tx)
      else
        (let newTags = SetTags_newTags tags [] in
         case Update_where_id tx nodeID (\<lambda>r. r\<lparr>ForcedTags := newTags\<rparr>) of
           (Some err, tx1) \<Rightarrow>
             (Some (Wrapped ''failed to update tags for node in the database'' err), tx1)
         | (None, tx1) \<Rightarrow> (None, tx1)))"

section \<open>RenameNode\<close>

text \<open>
  Modelled from the spec: \<^verbatim>\<open>util.LabelHostnameLength\<close> is not in the sources; the spec
  gives the DNS label limit as 63 characters.
\<close>

definition LabelHostnameLength :: nat where
  "LabelHostnameLength = 63"

text \<open>
  Modelled from the spec: \<^verbatim>\<open>util.CheckForFQDNRules\<close> is not in the sources. The spec
  has a new name validated against the DNS label rules, length at most 63 and a safe
  character set, taken here as lower-case letters, digits, hyphen and dot.
\<close>

definition dns_safe_char :: "char \<Rightarrow> bool" where
  "dns_safe_char c = (c \<in> set ''abcdefghijklmnopqrstuvwxyz0123456789-.'')"

definition CheckForFQDNRules :: "string \<Rightarrow> error option" where
  "CheckForFQDNRules name =
     (if length name > LabelHostnameLength then Some ErrInvalidName
      else if \<not> list_all dns_safe_char name then Some ErrInvalidName
      else None)"

definition RenameNode :: "State \<Rightarrow> nat \<Rightarrow> string \<Rightarrow> error option \<times> State" where
  "RenameNode tx nodeID newName =
     (case CheckForFQDNRules newName of
        Some err \<Rightarrow> (Some err, tx)
      | None \<Rightarrow>
          (case Update_where_id tx nodeID (\<lambda>r. r\<lparr>GivenName := newName\<rparr>) of
             (Some err, tx1) \<Rightarrow>
               (Some (Wrapped ''failed to rename node in the database'' err), tx1)
           | (None, tx1) \<Rightarrow> (None, tx1)))"

section \<open>Given names\<close>







section \<open>Registration\<close>

text \<open>The identifier an inserted row gets: one past every identifier in the table.\<close>

definition next_ID :: "Node list \<Rightarrow> nat" where
  "next_ID rows = Suc (foldr max (map ID rows) 0)"

text \<open>
  \<^verbatim>\<open>tx.Save(&node)\<close>: one statement. A node without primary key is inserted and gets its
  identifier; otherwise every column of the row with that identifier is updated, and
  when no row has it the node is inserted. The node is returned as the caller's copy
  stands after the call. The rows of its associations are not written here.
\<close>

definition Save_Node :: "State \<Rightarrow> Node \<Rightarrow> error option \<times> Node \<times> State" where
  "Save_Node tx node =
     (let (failed, tx1) = gorm_op tx in
      if failed then (Some ErrStorage, node, tx1)
      else if ID node = 0 then
        (let node1 = node\<lparr>ID := next_ID (nodes tx1)\<rparr>
         in (None, node1, tx1\<lparr>nodes := nodes tx1 @ [node1]\<rparr>))
      else if list_ex (\<lambda>r. ID r = ID node) (nodes tx1) then
        (None, node, tx1\<lparr>nodes := map (\<lambda>r. if ID r = ID node then node else r) (nodes tx1)\<rparr>)
      else (None, node, tx1\<lparr>nodes := nodes tx1 @ [node]\<rparr>))"

text \<open>
  \<^verbatim>\<open>RegisterNode\<close>. \<^verbatim>\<open>getAvailableIPs\<close> lives in another file of the package and is
  the parameter \<open>getAvailableIPs\<close>: it reads the store and yields the addresses or an error.
\<close>

definition RegisterNode ::
  "(State \<Rightarrow> Prefix list \<Rightarrow> (error + Addr list) \<times> State) \<Rightarrow>
   State \<Rightarrow> Node \<Rightarrow> Prefix list \<Rightarrow> (error + Node) \<times> State"
where
  "RegisterNode getAvailableIPs tx node ipPrefixes =
     (if length (IPAddresses node) > 0 then
        (case Save_Node tx node of
           (Some err, node1, tx1) \<Rightarrow>
             (Inl (Wrapped ''failed register existing node in the database'' err), tx1)
         | (None, node1, tx1) \<Rightarrow> (Inr node1, tx1))
      else
        (case getAvailableIPs tx ipPrefixes of
           (Inl err, tx1) \<Rightarrow> (Inl err, tx1)
         | (Inr ips, tx1) \<Rightarrow>
             (case Save_Node tx1 (node\<lparr>IPAddresses := ips\<rparr>) of
                (Some err, node1, tx2) \<Rightarrow>
                  (Inl (Wrapped ''failed register(save) node in the database'' err), tx2)
              | (None, node1, tx2) \<Rightarrow> (Inr node1, tx2))))"

text \<open>
  Registering again and again: \<open>k + 1\<close> calls of \<^verbatim>\<open>RegisterNode\<close>, each on the node the
  call before returned, stopping at the first error.
\<close>

fun RegisterNode_repeat ::
  "(State \<Rightarrow> Prefix list \<Rightarrow> (error + Addr list) \<times> State) \<Rightarrow>
   nat \<Rightarrow> State \<Rightarrow> Node \<Rightarrow> Prefix list \<Rightarrow> (error + Node) \<times> State"
where
  "RegisterNode_repeat getAvailableIPs 0 tx node ipPrefixes =
     RegisterNode getAvailableIPs tx node ipPrefixes"
| "RegisterNode_repeat getAvailableIPs (Suc k) tx node ipPrefixes =
     (case RegisterNode getAvailableIPs tx node ipPrefixes of
        (Inl err, tx1) \<Rightarrow> (Inl err, tx1)
      | (Inr node1, tx1) \<Rightarrow> RegisterNode_repeat getAvailableIPs k tx1 node1 ipPrefixes)"

text \<open>
  Modelled from the spec: \<^verbatim>\<open>GetUser\<close> is in another file of the package. The spec has
  the user name resolved to a user, failing with UserNotFound when it is unknown: one
  read of the user table.
\<close>

definition GetUser :: "State \<Rightarrow> string \<Rightarrow> (error + User) \<times> State" where
  "GetUser tx name =
     (let (failed, tx1) = gorm_op tx in
      if failed then (Inl ErrStorage, tx1)
      else (case find (\<lambda>u. User_Name u = name) (users tx1) of
              None \<Rightarrow> (Inl ErrUserNotFound, tx1)
            | Some user \<Rightarrow> (Inr user, tx1)))"

text \<open>
  The registration cache maps the machine key's string to an untyped value: a pending
  node, or anything else (for which the type assertion of the source fails). An entry
  whose time to live has run out is an absent entry.
\<close>

datatype CacheItem = CachedNode Node | CachedOther

type_synonym Cache = "string \<Rightarrow> CacheItem option"

text \<open>
  \<^verbatim>\<open>RegisterNodeFromAuthCallback\<close>. The copy of the user row that the source also puts
  into the node (\<^verbatim>\<open>registrationNode.User\<close>) is an association, not a column, and is
  left out of \<open>Node\<close>.
\<close>

definition RegisterNodeFromAuthCallback ::
  "(State \<Rightarrow> Prefix list \<Rightarrow> (error + Addr list) \<times> State) \<Rightarrow>
   State \<Rightarrow> Cache \<Rightarrow> string \<Rightarrow> string \<Rightarrow> Time option \<Rightarrow> string \<Rightarrow> Prefix list \<Rightarrow>
   (error + Node) \<times> Cache \<times> State"
where
  "RegisterNodeFromAuthCallback getAvailableIPs tx cache mkey userName nodeExpiry
       registrationMethod ipPrefixes =
     (case cache mkey of
        None \<Rightarrow> (Inl ErrNodeNotFoundRegistrationCache, cache, tx)
      | Some CachedOther \<Rightarrow> (Inl ErrCouldNotConvertNodeInterface, cache, tx)
      | Some (CachedNode registrationNode) \<Rightarrow>
          (case GetUser tx userName of
             (Inl err, tx1) \<Rightarrow>
               (Inl (Wrapped ''failed to find user in register node from auth callback'' err),
                cache, tx1)
           | (Inr user, tx1) \<Rightarrow>
               if ID registrationNode \<noteq> 0 \<and> UserID registrationNode \<noteq> User_ID user
               then (Inl ErrDifferentRegisteredUser, cache, tx1)
               else
                 (let registrationNode1 =
                        registrationNode\<lparr>UserID := User_ID user,
                          RegisterMethod := registrationMethod\<rparr>;
                      registrationNode2 =
                        (case nodeExpiry of
                           Some e \<Rightarrow> registrationNode1\<lparr>Expiry := Some e\<rparr>
                         | None \<Rightarrow> registrationNode1)
                  in case RegisterNode getAvailableIPs tx1 registrationNode2 ipPrefixes of
                       (Inr node, tx2) \<Rightarrow> (Inr node, cache(mkey := None), tx2)
                     | (Inl err, tx2) \<Rightarrow> (Inl err, cache, tx2))))"

section \<open>Routes\<close>

definition GetAdvertisedRoutes :: "State \<Rightarrow> Node \<Rightarrow> (error + Prefix list) \<times> State" where
  "GetAdvertisedRoutes tx node =
     (let (failed, tx1) = gorm_op tx in
      if failed then (Inl ErrStorage, tx1)
      else (Inr (map Route_Prefix
                  (filter (\<lambda>r. NodeID r = ID node \<and> Advertised r = True) (routes tx1))), tx1))"

text \<open>
  Modelled from the spec: \<^verbatim>\<open>GetNodeRoutes\<close> is in another file of the package. The spec
  has the node's route list refreshed from storage after the mutation: one read of the
  route rows of the node.
\<close>

definition GetNodeRoutes :: "State \<Rightarrow> Node \<Rightarrow> (error + Route list) \<times> State" where
  "GetNodeRoutes tx node =
     (let (failed, tx1) = gorm_op tx in
      if failed then (Inl ErrStorage, tx1)
      else (Inr (filter (\<lambda>r. NodeID r = ID node) (routes tx1)), tx1))"

text \<open>
  Modelled from the spec: \<^verbatim>\<open>Route.IsExitRoute\<close> is in package types. The spec calls
  exit routes the full-range default routes: \<^verbatim>\<open>0.0.0.0/0\<close> and \<^verbatim>\<open>::/0\<close>.
\<close>

definition ExitRouteV4 :: Prefix where
  "ExitRouteV4 = Prefix (IPv4 0) 0"

definition ExitRouteV6 :: Prefix where
  "ExitRouteV6 = Prefix (IPv6 0) 0"

definition IsExitRoute :: "Route \<Rightarrow> bool" where
  "IsExitRoute route = (Route_Prefix route = ExitRouteV4 \<or> Route_Prefix route = ExitRouteV6)"

text \<open>
  Modelled from the spec: \<^verbatim>\<open>isUniquePrefix\<close> is in another file of the package. The
  spec has it true when this node is the only node currently offering the prefix
  (enabled-or-advertised): no row of another node has the prefix and is enabled or
  advertised.
\<close>

definition isUniquePrefix :: "State \<Rightarrow> Route \<Rightarrow> bool" where
  "isUniquePrefix tx route =
     (\<not> list_ex (\<lambda>r. Route_Prefix r = Route_Prefix route \<and> NodeID r \<noteq> NodeID route
                      \<and> (Enabled r \<or> Advertised r)) (routes tx))"

text \<open>
  \<^verbatim>\<open>tx.Where("node_id = ? AND prefix = ?", ...).First(&route)\<close>: one statement, the
  first matching row in primary-key order, \<^verbatim>\<open>ErrRecordNotFound\<close> when there is none.
\<close>

definition First_Route :: "State \<Rightarrow> nat \<Rightarrow> Prefix \<Rightarrow> (error + Route) \<times> State" where
  "First_Route tx nodeID prefix =
     (let (failed, tx1) = gorm_op tx in
      if failed then (Inl ErrStorage, tx1)
      else (case find (\<lambda>r. NodeID r = nodeID \<and> Route_Prefix r = prefix) (routes tx1) of
              None \<Rightarrow> (Inl ErrRecordNotFound, tx1)
            | Some route \<Rightarrow> (Inr route, tx1)))"

definition next_Route_ID :: "Route list \<Rightarrow> nat" where
  "next_Route_ID rows = Suc (foldr max (map Route_ID rows) 0)"

text \<open>\<^verbatim>\<open>tx.Save(&route)\<close>, as for a node.\<close>

definition Save_Route :: "State \<Rightarrow> Route \<Rightarrow> error option \<times> State" where
  "Save_Route tx route =
     (let (failed, tx1) = gorm_op tx in
      if failed then (Some ErrStorage, tx1)
      else if Route_ID route = 0 then
        (None, tx1\<lparr>routes := routes tx1 @ [route\<lparr>Route_ID := next_Route_ID (routes tx1)\<rparr>]\<rparr>)
      else if list_ex (\<lambda>r. Route_ID r = Route_ID route) (routes tx1) then
        (None, tx1\<lparr>routes :=
                  map (\<lambda>r. if Route_ID r = Route_ID route then route else r) (routes tx1)\<rparr>)
      else (None, tx1\<lparr>routes := routes tx1 @ [route]\<rparr>))"

text \<open>
  The three loops of \<^verbatim>\<open>enableRoutes\<close>. \<^verbatim>\<open>netip.ParsePrefix\<close> is the parameter
  \<open>ParsePrefix\<close>. The first loop parses the strings in order and stops at the first
  that does not parse.
\<close>

fun enableRoutes_newRoutes ::
  "(string \<Rightarrow> error + Prefix) \<Rightarrow> string list \<Rightarrow> error + Prefix list" where
  "enableRoutes_newRoutes ParsePrefix [] = Inr []"
| "enableRoutes_newRoutes ParsePrefix (routeStr # rest) =
     (case ParsePrefix routeStr of
        Inl err \<Rightarrow> Inl err
      | Inr route \<Rightarrow>
          (case enableRoutes_newRoutes ParsePrefix rest of
             Inl err \<Rightarrow> Inl err
           | Inr newRoutes \<Rightarrow> Inr (route # newRoutes)))"

text \<open>The second loop: every new route must be among the advertised ones.\<close>

fun enableRoutes_available :: "Prefix list \<Rightarrow> Prefix list \<Rightarrow> error option" where
  "enableRoutes_available advertisedRoutes [] = None"
| "enableRoutes_available advertisedRoutes (newRoute # rest) =
     (if \<not> StringOrPrefixListContains advertisedRoutes newRoute
      then Some (Wrapped ''route is not available on node'' ErrNodeRouteIsNotAvailable)
      else enableRoutes_available advertisedRoutes rest)"

text \<open>The third loop: find the row of each prefix, enable it, mark it primary, save it.\<close>

fun enableRoutes_enable :: "State \<Rightarrow> Node \<Rightarrow> Prefix list \<Rightarrow> error option \<times> State" where
  "enableRoutes_enable tx node [] = (None, tx)"
| "enableRoutes_enable tx node (prefix # rest) =
     (case First_Route tx (ID node) prefix of
        (Inl err, tx1) \<Rightarrow> (Some (Wrapped ''failed to find route'' err), tx1)
      | (Inr route, tx1) \<Rightarrow>
          (let route1 = route\<lparr>Enabled := True\<rparr>;
               route2 = (if \<not> IsExitRoute route1
                         then route1\<lparr>IsPrimary := isUniquePrefix tx1 route1\<rparr>
                         else route1)
           in case Save_Route tx1 route2 of
                (Some err, tx2) \<Rightarrow> (Some (Wrapped ''failed to enable route'' err), tx2)
              | (None, tx2) \<Rightarrow> enableRoutes_enable tx2 node rest))"

definition enableRoutes ::
  "(string \<Rightarrow> error + Prefix) \<Rightarrow> State \<Rightarrow> Node \<Rightarrow> string list \<Rightarrow> (error + StateUpdate) \<times> State"
where
  "enableRoutes ParsePrefix tx node routeStrs =
     (case enableRoutes_newRoutes ParsePrefix routeStrs of
        Inl err \<Rightarrow> (Inl err, tx)
      | Inr newRoutes \<Rightarrow>
          (case GetAdvertisedRoutes tx node of
             (Inl err, tx1) \<Rightarrow> (Inl err, tx1)
           | (Inr advertisedRoutes, tx1) \<Rightarrow>
               (case enableRoutes_available advertisedRoutes newRoutes of
                  Some err \<Rightarrow> (Inl err, tx1)
                | None \<Rightarrow>
                    (case enableRoutes_enable tx1 node newRoutes of
                       (Some err, tx2) \<Rightarrow> (Inl err, tx2)
                     | (None, tx2) \<Rightarrow>
                         (case GetNodeRoutes tx2 node of
                            (Inl err, tx3) \<Rightarrow>
                              (Inl (Wrapped ''failed to read back routes'' err), tx3)
                          | (Inr nRoutes, tx3) \<Rightarrow>
                              (Inr \<lparr>Type = StatePeerChanged,
                                    ChangeNodes = [node\<lparr>Routes := nRoutes\<rparr>],
                                    Removed = [], ChangePatches = [],
                                    Message = ''created in db.enableRoutes''\<rparr>, tx3))))))"

text \<open>
  What the third loop writes for a row it found, and the table after a run of the loop
  that enabled the rows of node \<open>n\<close> whose identifiers are in \<open>S\<close>.
\<close>

definition enabled_row :: "State \<Rightarrow> Route \<Rightarrow> Route" where
  "enabled_row tx r =
     r\<lparr>Enabled := True,
       IsPrimary := (if IsExitRoute r then IsPrimary r else isUniquePrefix tx r)\<rparr>"

definition enable_rows :: "State \<Rightarrow> nat \<Rightarrow> nat set \<Rightarrow> Route \<Rightarrow> Route" where
  "enable_rows tx n S r = (if NodeID r = n \<and> Route_ID r \<in> S then enabled_row tx r else r)"

section \<open>Lifecycle sweeps\<close>

definition ListNodes :: "State \<Rightarrow> (error + Node list) \<times> State" where
  "ListNodes tx =
     (let (failed, tx1) = gorm_op tx in
      if failed then (Inl ErrStorage, tx1)
      else (Inr (map (preload tx1) (nodes tx1)), tx1))"

text \<open>
  Modelled from the spec: \<^verbatim>\<open>ListUsers\<close> and \<^verbatim>\<open>ListNodesByUser\<close> are in another file
  of the package. The sweep iterates all users, then all of each user's nodes, and a
  failure listing the nodes of one user is an error: the first reads the user table,
  the second resolves the user by name and reads the nodes that user owns.
\<close>

definition ListUsers :: "State \<Rightarrow> (error + User list) \<times> State" where
  "ListUsers tx =
     (let (failed, tx1) = gorm_op tx in
      if failed then (Inl ErrStorage, tx1) else (Inr (users tx1), tx1))"

definition ListNodesByUser :: "State \<Rightarrow> string \<Rightarrow> (error + Node list) \<times> State" where
  "ListNodesByUser tx name =
     (case GetUser tx name of
        (Inl err, tx1) \<Rightarrow> (Inl err, tx1)
      | (Inr user, tx1) \<Rightarrow>
          (let (failed, tx2) = gorm_op tx1 in
           if failed then (Inl ErrStorage, tx2)
           else (Inr (map (preload tx2)
                       (filter (\<lambda>n. UserID n = User_ID user) (nodes tx2))), tx2)))"

text \<open>
  Modelled from the spec: \<^verbatim>\<open>deleteNodeRoutes\<close> is in another file of the package. The
  spec has the deletion of a node cascade to its routes first: the route rows of the node
  are removed.
\<close>

definition deleteNodeRoutes :: "State \<Rightarrow> Node \<Rightarrow> error option \<times> State" where
  "deleteNodeRoutes tx node =
     (let (failed, tx1) = gorm_op tx in
      if failed then (Some ErrStorage, tx1)
      else (None, tx1\<lparr>routes := filter (\<lambda>r. NodeID r \<noteq> ID node) (routes tx1)\<rparr>))"

text \<open>
  \<^verbatim>\<open>tx.Unscoped().Delete(&node)\<close>: the row of the node's identifier is removed for good. A
  node without primary key gives no condition, which gorm refuses with
  \<^verbatim>\<open>ErrMissingWhereClause\<close> before any statement is sent.
\<close>

definition Delete_Node :: "State \<Rightarrow> Node \<Rightarrow> error option \<times> State" where
  "Delete_Node tx node =
     (if ID node = 0 then (Some ErrMissingWhereClause, tx)
      else
        (let (failed, tx1) = gorm_op tx in
         if failed then (Some ErrStorage, tx1)
         else (None, tx1\<lparr>nodes := filter (\<lambda>r. ID r \<noteq> ID node) (nodes tx1)\<rparr>)))"

text \<open>\<^verbatim>\<open>DeleteNode\<close>; the source does not use its \<^verbatim>\<open>isConnected\<close> argument.\<close>

definition DeleteNode :: "State \<Rightarrow> Node \<Rightarrow> error option \<times> State" where
  "DeleteNode tx node =
     (case deleteNodeRoutes tx node of
        (Some err, tx1) \<Rightarrow> (Some err, tx1)
      | (None, tx1) \<Rightarrow> Delete_Node tx1 node)"

text \<open>
  Modelled from the spec: \<^verbatim>\<open>Node.IsEphemeral\<close> and \<^verbatim>\<open>Node.IsExpired\<close> are in package
  types. A node is ephemeral when its flag says so; its computed expiry state is
  expired when it has an expiry (null = never expires) and the clock, read now, is
  past it.
\<close>

definition IsEphemeral :: "Node \<Rightarrow> bool" where
  "IsEphemeral node = Ephemeral node"

definition IsExpired :: "State \<Rightarrow> Node \<Rightarrow> bool \<times> State" where
  "IsExpired tx node =
     (case Expiry node of
        None \<Rightarrow> (False, tx)
      | Some e \<Rightarrow> (let (now, tx1) = time_Now tx in (e < now, tx1)))"

text \<open>\<^verbatim>\<open>t.After(u)\<close> on a pointer that the left operand of \<^verbatim>\<open>&&\<close> found set.\<close>

definition After :: "Time option \<Rightarrow> Time \<Rightarrow> bool" where
  "After t u = (case t of None \<Rightarrow> False | Some t' \<Rightarrow> u < t')"

text \<open>
  The condition of the \<^verbatim>\<open>if\<close> in the loop of \<^verbatim>\<open>ExpireEphemeralNodes\<close>, with the
  short-circuit of \<^verbatim>\<open>&&\<close>: the clock is read only for an ephemeral node that was seen.
\<close>

definition ephemeral_condition :: "Time \<Rightarrow> State \<Rightarrow> Node \<Rightarrow> bool \<times> State" where
  "ephemeral_condition inactivityThreshhold tx node =
     (if IsEphemeral node then
        (case LastSeen node of
           None \<Rightarrow> (False, tx)
         | Some lastSeen \<Rightarrow>
             (let (now, tx1) = time_Now tx
              in (After (Some now) (lastSeen + inactivityThreshhold), tx1)))
      else (False, tx))"

text \<open>
  The loop of \<^verbatim>\<open>ExpireEphemeralNodes\<close> over the nodes of one user. The identifier is
  appended before \<^verbatim>\<open>DeleteNode\<close> is called, and the error of \<^verbatim>\<open>DeleteNode\<close> is logged
  and dropped.
\<close>

fun ExpireEphemeralNodes_nodes ::
  "Time \<Rightarrow> Node list \<Rightarrow> nat list \<Rightarrow> State \<Rightarrow> nat list \<times> State" where
  "ExpireEphemeralNodes_nodes inactivityThreshhold [] expired tx = (expired, tx)"
| "ExpireEphemeralNodes_nodes inactivityThreshhold (node # rest) expired tx =
     (let (inactive, tx1) = ephemeral_condition inactivityThreshhold tx node in
      if inactive then
        (let expired1 = expired @ [ID node];
             (err, tx2) = DeleteNode tx1 node
         in ExpireEphemeralNodes_nodes inactivityThreshhold rest expired1 tx2)
      else ExpireEphemeralNodes_nodes inactivityThreshhold rest expired tx1)"

text \<open>The loop over the users: \<open>None\<close> when listing the nodes of a user fails.\<close>

fun ExpireEphemeralNodes_users ::
  "Time \<Rightarrow> User list \<Rightarrow> nat list \<Rightarrow> State \<Rightarrow> nat list option \<times> State" where
  "ExpireEphemeralNodes_users inactivityThreshhold [] expired tx = (Some expired, tx)"
| "ExpireEphemeralNodes_users inactivityThreshhold (user # rest) expired tx =
     (case ListNodesByUser tx (User_Name user) of
        (Inl err, tx1) \<Rightarrow> (None, tx1)
      | (Inr found, tx1) \<Rightarrow>
          (let (expired1, tx2) = ExpireEphemeralNodes_nodes inactivityThreshhold found expired tx1
           in ExpireEphemeralNodes_users inactivityThreshhold rest expired1 tx2))"

definition ExpireEphemeralNodes :: "State \<Rightarrow> Time \<Rightarrow> (StateUpdate \<times> bool) \<times> State" where
  "ExpireEphemeralNodes tx inactivityThreshhold =
     (case ListUsers tx of
        (Inl err, tx1) \<Rightarrow> ((StateUpdate_zero, False), tx1)
      | (Inr found, tx1) \<Rightarrow>
          (case ExpireEphemeralNodes_users inactivityThreshhold found [] tx1 of
             (None, tx2) \<Rightarrow> ((StateUpdate_zero, False), tx2)
           | (Some expired, tx2) \<Rightarrow>
               if length expired > 0
               then ((StateUpdate_zero\<lparr>Type := StatePeerRemoved, Removed := expired\<rparr>, True), tx2)
               else ((StateUpdate_zero, False), tx2)))"

text \<open>
  \<^verbatim>\<open>tx.Model(&nodes[index]).Updates(types.Node{Expiry: &now})\<close>: the expiry column of the
  row of the node's identifier; without primary key gorm refuses as for a delete. gorm
  also stores the new pointer in the listed node, which nothing reads afterwards.
\<close>

definition Updates_Expiry :: "State \<Rightarrow> Node \<Rightarrow> Time \<Rightarrow> error option \<times> State" where
  "Updates_Expiry tx node now =
     (if ID node = 0 then (Some ErrMissingWhereClause, tx)
      else Update_where_id tx (ID node) (\<lambda>r. r\<lparr>Expiry := Some now\<rparr>))"

text \<open>
  The loop of \<^verbatim>\<open>ExpireExpiredNodes\<close>. The patch is built from \<^verbatim>\<open>node.Expiry\<close> as the
  listing read it, then \<^verbatim>\<open>now\<close> is read and written; the error of the write is logged
  and dropped.
\<close>

fun ExpireExpiredNodes_nodes ::
  "Time \<Rightarrow> Node list \<Rightarrow> PeerChange list \<Rightarrow> State \<Rightarrow> PeerChange list \<times> State" where
  "ExpireExpiredNodes_nodes lastCheck [] expired tx = (expired, tx)"
| "ExpireExpiredNodes_nodes lastCheck (node # rest) expired tx =
     (let (isExpired, tx1) = IsExpired tx node in
      if isExpired \<and> After (Expiry node) lastCheck then
        (let expired1 = expired @ [\<lparr>PeerChange_NodeID = ID node, KeyExpiry = Expiry node\<rparr>];
             (now, tx2) = time_Now tx1;
             (err, tx3) = Updates_Expiry tx2 node now
         in ExpireExpiredNodes_nodes lastCheck rest expired1 tx3)
      else ExpireExpiredNodes_nodes lastCheck rest expired tx1)"

definition ExpireExpiredNodes :: "State \<Rightarrow> Time \<Rightarrow> (Time \<times> StateUpdate \<times> bool) \<times> State" where
  "ExpireExpiredNodes tx lastCheck =
     (let (started, tx1) = time_Now tx in
      case ListNodes tx1 of
        (Inl err, tx2) \<Rightarrow> ((time_Unix_0_0, StateUpdate_zero, False), tx2)
      | (Inr found, tx2) \<Rightarrow>
          (let (expired, tx3) = ExpireExpiredNodes_nodes lastCheck found [] tx2 in
           if length expired > 0
           then ((started,
                  StateUpdate_zero\<lparr>Type := StatePeerChangedPatch, ChangePatches := expired\<rparr>,
                  True), tx3)
           else ((started, StateUpdate_zero, False), tx3)))"

text \<open>
  What the writes of the expiry sweep have done for a batch of patches: every row with
  the identifier of a patch has an expiry later than the one the patch carries, and not
  later than the clock.
\<close>

definition expiry_written :: "PeerChange list \<Rightarrow> State \<Rightarrow> bool" where
  "expiry_written expired tx =
     (\<forall>p \<in> set expired. PeerChange_NodeID p \<noteq> 0 \<longrightarrow>
        (\<forall>r \<in> set (nodes tx). ID r = PeerChange_NodeID p \<longrightarrow>
           (case (KeyExpiry p, Expiry r) of
              (Some e, Some t) \<Rightarrow> e < t \<and> t \<le> clock tx
            | _ \<Rightarrow> False)))"

text \<open>
  A row that an expiry sweep with cursor \<open>lc\<close> reports as soon as the clock has moved
  on: its expiry is after the cursor and not after the clock. And a row that the sweep
  reports at clock reading \<open>c\<close>.
\<close>

definition due :: "Time \<Rightarrow> State \<Rightarrow> Node \<Rightarrow> bool" where
  "due lc tx r = (case Expiry r of None \<Rightarrow> False | Some t \<Rightarrow> lc < t \<and> t \<le> clock tx)"

definition reportable :: "Time \<Rightarrow> Time \<Rightarrow> Node \<Rightarrow> bool" where
  "reportable lc c r = (case Expiry r of None \<Rightarrow> False | Some t \<Rightarrow> lc < t \<and> t < c)"

text \<open>
  What the expiry sweep does, stated apart from its loop, in two parts. First the nodes of
  a listing that are expired when the sweep tests them and whose expiry is after the
  cursor, in the order of the listing: for each its identifier, the expiry it was listed
  with, and \<^verbatim>\<open>now\<close>, the clock reading taken for its write after the test. Only the
  clock of the state is used.
\<close>

fun newly_expired :: "Time \<Rightarrow> Node list \<Rightarrow> State \<Rightarrow> (nat \<times> Time option \<times> Time) list" where
  "newly_expired lc [] tx = []"
| "newly_expired lc (node # rest) tx =
     (if fst (IsExpired tx node) \<and> After (Expiry node) lc
      then (ID node, Expiry node, fst (time_Now (snd (IsExpired tx node))))
             # newly_expired lc rest (snd (time_Now (snd (IsExpired tx node))))
      else newly_expired lc rest (snd (IsExpired tx node)))"

text \<open>
  Then the writes of those nodes on the node table, under the schedule of failures that
  is left after the listing. A node without identifier is refused before any statement
  is sent; every other write is one statement, which fails as the schedule says and
  otherwise sets the expiry of every row of that identifier to \<^verbatim>\<open>now\<close>.
\<close>

fun expiry_writes :: "bool list \<Rightarrow> (nat \<times> Time option \<times> Time) list \<Rightarrow> Node list \<Rightarrow> Node list" where
  "expiry_writes fs [] rows = rows"
| "expiry_writes fs ((i, e, now) # ws) rows =
     (if i = 0 then expiry_writes fs ws rows
      else if fs \<noteq> [] \<and> hd fs then expiry_writes (tl fs) ws rows
      else expiry_writes (tl fs) ws
             (map (\<lambda>r. if ID r = i then r\<lparr>Expiry := Some now\<rparr> else r) rows))"

text \<open>
  The identifiers of the nodes of a list that meet the ephemeral-inactivity condition:
  ephemeral, seen at some time, and that time plus the threshold before the clock
  reading the sweep takes for the node. Only the clock of the state is used.
\<close>

fun ephemeral_inactive :: "Time \<Rightarrow> Node list \<Rightarrow> State \<Rightarrow> nat list" where
  "ephemeral_inactive threshold [] tx = []"
| "ephemeral_inactive threshold (node # rest) tx =
     (if fst (ephemeral_condition threshold tx node)
      then ID node # ephemeral_inactive threshold rest (snd (ephemeral_condition threshold tx node))
      else ephemeral_inactive threshold rest (snd (ephemeral_condition threshold tx node)))"

section \<open>Example registries\<close>

text \<open>The zero value \<^verbatim>\<open>types.Node{}\<close>, from which the examples build their nodes.\<close>

definition Node_zero :: Node where
  "Node_zero =
     \<lparr>ID = 0, MachineKey = [], NodeKey = [], UserID = 0, Hostname = [], GivenName = [],
      IPAddresses = [], ForcedTags = [], Expiry = None, LastSeen = None, Ephemeral = False,
      RegisterMethod = [], Routes = []\<rparr>"

definition State_zero :: State where
  "State_zero = \<lparr>nodes = [], routes = [], users = [], faults = [], clock = 0, ticks = []\<rparr>"

text \<open>Two nodes with different machine keys and different given names.\<close>

definition laptop :: Node where
  "laptop = Node_zero\<lparr>ID := 1, MachineKey := ''mkey:a'', Hostname := ''laptop'',
     GivenName := ''laptop''\<rparr>"

definition phone :: Node where
  "phone = Node_zero\<lparr>ID := 2, MachineKey := ''mkey:b'', Hostname := ''phone'',
     GivenName := ''phone''\<rparr>"

definition two_nodes :: State where
  "two_nodes = State_zero\<lparr>nodes := [laptop, phone]\<rparr>"




text \<open>
  A registry with one user and her authorized laptop, the pending cache entry of that
  laptop coming back with a new node key, and an allocator whose pool is empty.
\<close>

definition alice :: User where
  "alice = \<lparr>User_ID = 1, User_Name = ''alice''\<rparr>"

definition registered :: Node where
  "registered = laptop\<lparr>UserID := 1, IPAddresses := [IPv4 1]\<rparr>"

definition registry :: State where
  "registry = State_zero\<lparr>nodes := [registered, phone], users := [alice]\<rparr>"

definition pending_cache :: Cache where
  "pending_cache = Map.empty(''mkey:a'' \<mapsto> CachedNode (registered\<lparr>NodeKey := ''nodekey:new''\<rparr>))"

definition example_getAvailableIPs :: "State \<Rightarrow> Prefix list \<Rightarrow> (error + Addr list) \<times> State" where
  "example_getAvailableIPs tx ipPrefixes = (Inl ErrAddressPoolExhausted, tx)"

text \<open>
  Route rows: \<^verbatim>\<open>10.0.1.0/24\<close> and the IPv4 exit route advertised by the laptop alone,
  and the same table once the laptop's routes are enabled and the phone advertises
  \<^verbatim>\<open>10.0.1.0/24\<close> too. The parser knows three strings.
\<close>

definition subnet_1 :: Prefix where
  "subnet_1 = Prefix (IPv4 167772416) 24"

definition subnet_5 :: Prefix where
  "subnet_5 = Prefix (IPv4 167773440) 24"

definition example_ParsePrefix :: "string \<Rightarrow> error + Prefix" where
  "example_ParsePrefix s =
     (if s = ''10.0.1.0/24'' then Inr subnet_1
      else if s = ''10.0.5.0/24'' then Inr subnet_5
      else if s = ''0.0.0.0/0'' then Inr ExitRouteV4
      else Inl ErrParsePrefix)"

definition advertised_route :: "nat \<Rightarrow> nat \<Rightarrow> Prefix \<Rightarrow> Route" where
  "advertised_route i n p =
     \<lparr>Route_ID = i, NodeID = n, Route_Prefix = p, Advertised = True, Enabled = False,
      IsPrimary = False\<rparr>"

definition sole_offer :: State where
  "sole_offer =
     two_nodes\<lparr>routes := [advertised_route 1 1 subnet_1, advertised_route 2 1 ExitRouteV4]\<rparr>"

definition second_offer :: State where
  "second_offer =
     two_nodes\<lparr>routes :=
       [(advertised_route 1 1 subnet_1)\<lparr>Enabled := True, IsPrimary := True\<rparr>,
        (advertised_route 2 1 ExitRouteV4)\<lparr>Enabled := True\<rparr>,
        advertised_route 3 2 subnet_1]\<rparr>"

text \<open>
  A registry with one node whose key expired at 5, at clock 10; the clock advances by
  one unit at its fourth reading.
\<close>

definition expiring :: State where
  "expiring =
     State_zero\<lparr>nodes := [laptop\<lparr>Expiry := Some 5\<rparr>], clock := 10, ticks := [0, 0, 0, 1]\<rparr>"

text \<open>
  Alice's registry with an ephemeral node of hers last seen at 0, at clock 10; the
  fourth statement sent to the store fails.
\<close>

definition visitor :: Node where
  "visitor = Node_zero\<lparr>ID := 3, MachineKey := ''mkey:c'', UserID := 1, Hostname := ''visitor'',
     GivenName := ''visitor'', LastSeen := Some 0, Ephemeral := True\<rparr>"

definition visited :: State where
  "visited = State_zero\<lparr>nodes := [registered, visitor], users := [alice],
     faults := [False, False, False, True], clock := 10\<rparr>"

section \<open>Properties\<close>

subsection \<open>SetTags\<close>

lemma StringOrPrefixListContains_iff: "StringOrPrefixListContains ts t \<longleftrightarrow> t \<in> set ts"
  by (induction ts) auto

text \<open>
  C9. \<^verbatim>\<open>SetTags\<close> with an empty tag list returns \<^verbatim>\<open>nil\<close> and sends no statement to
  the store: the state it returns is the state it was given, so every node keeps its
  forced tags and every other field, and an empty list clears nothing.
\<close>

theorem SetTags_empty_noop: "SetTags tx nodeID [] = (None, tx)"
  by (simp add: SetTags_def)

subsection \<open>Given names\<close>

lemma gorm_op_tables [simp]:
  "nodes (snd (gorm_op tx)) = nodes tx"
  "routes (snd (gorm_op tx)) = routes tx"
  "users (snd (gorm_op tx)) = users tx"
  "clock (snd (gorm_op tx)) = clock tx"
  "ticks (snd (gorm_op tx)) = ticks tx"
  by (simp_all add: gorm_op_def split: list.splits)


lemma preload_fields [simp]:
  "ID (preload tx n) = ID n"
  "MachineKey (preload tx n) = MachineKey n"
  "GivenName (preload tx n) = GivenName n"
  "Expiry (preload tx n) = Expiry n"
  "LastSeen (preload tx n) = LastSeen n"
  "Ephemeral (preload tx n) = Ephemeral n"
  "UserID (preload tx n) = UserID n"
  "IPAddresses (preload tx n) = IPAddresses n"
  by (simp_all add: preload_def)








subsection \<open>RenameNode\<close>

text \<open>
  C4. \<^verbatim>\<open>RenameNode\<close> checks the new name against the DNS rules only. In a registry whose
  two nodes have different given names, renaming the second to the name of the first
  succeeds and leaves two nodes of the same given name.
\<close>

theorem RenameNode_duplicate_GivenName:
  "distinct (map GivenName (nodes two_nodes))
   \<and> fst (RenameNode two_nodes 2 ''laptop'') = None
   \<and> map ID (nodes (snd (RenameNode two_nodes 2 ''laptop''))) = [1, 2]
   \<and> map GivenName (nodes (snd (RenameNode two_nodes 2 ''laptop''))) = [''laptop'', ''laptop'']"
  by (simp add: RenameNode_def CheckForFQDNRules_def LabelHostnameLength_def dns_safe_char_def
      Update_where_id_def gorm_op_def two_nodes_def State_zero_def laptop_def phone_def
      Node_zero_def)

subsection \<open>RegisterNode\<close>

lemma next_ID_fresh: "x \<in> set rows \<Longrightarrow> ID x < next_ID rows"
  by (induction rows) (auto simp: next_ID_def)

lemma next_ID_neq: "x \<in> set rows \<Longrightarrow> ID x \<noteq> next_ID rows"
  using next_ID_fresh [of x rows] by simp

lemma Save_Node_failed:
  "fst (gorm_op tx) \<Longrightarrow> Save_Node tx node = (Some ErrStorage, node, snd (gorm_op tx))"
  by (simp add: Save_Node_def split_beta)

lemma Save_Node_cases:
  assumes "Save_Node tx node = (r, n', tx')"
  shows "(r = Some ErrStorage \<and> fst (gorm_op tx) \<and> nodes tx' = nodes tx) \<or>
   (r = None \<and> \<not> fst (gorm_op tx) \<and> n' = node\<lparr>ID := ID n'\<rparr> \<and> n' \<in> set (nodes tx')
      \<and> (ID node \<noteq> 0 \<longrightarrow> n' = node)
      \<and> (\<forall>x \<in> set (nodes tx'). ID x = ID n' \<longrightarrow> x = n'))"
  using assms
  by (auto simp: Save_Node_def split_beta Let_def list_ex_iff split: if_splits dest: next_ID_neq)

lemma RegisterNode_existing:
  "IPAddresses node \<noteq> [] \<Longrightarrow>
   RegisterNode g tx node pfx =
     (case Save_Node tx node of
        (Some err, node1, tx1) \<Rightarrow>
          (Inl (Wrapped ''failed register existing node in the database'' err), tx1)
      | (None, node1, tx1) \<Rightarrow> (Inr node1, tx1))"
  by (simp add: RegisterNode_def)

lemma RegisterNode_existing_Inr:
  assumes ips: "IPAddresses node \<noteq> []"
    and reg: "RegisterNode g tx node pfx = (Inr n', tx')"
  shows "n' = node\<lparr>ID := ID n'\<rparr> \<and> (ID node \<noteq> 0 \<longrightarrow> n' = node) \<and> n' \<in> set (nodes tx')
     \<and> (\<forall>x \<in> set (nodes tx'). ID x = ID n' \<longrightarrow> x = n')"
proof -
  obtain r n1 tx1 where s: "Save_Node tx node = (r, n1, tx1)"
    by (cases "Save_Node tx node") auto
  with reg ips have "r = None" "n1 = n'" "tx1 = tx'"
    by (auto simp: RegisterNode_existing split: option.splits)
  with Save_Node_cases [OF s] show ?thesis by auto
qed

lemma RegisterNode_existing_ok:
  assumes ips: "IPAddresses node \<noteq> []" and ok: "\<not> fst (gorm_op tx)"
  shows "\<exists>n'. fst (RegisterNode g tx node pfx) = Inr n'"
proof -
  obtain r n1 tx1 where s: "Save_Node tx node = (r, n1, tx1)"
    by (cases "Save_Node tx node") auto
  with Save_Node_cases [OF s] ok have "r = None" by auto
  with s ips show ?thesis by (simp add: RegisterNode_existing)
qed

lemma RegisterNode_repeat_addresses:
  "IPAddresses node \<noteq> [] \<Longrightarrow> RegisterNode_repeat g k tx node pfx = (Inr n', tx') \<Longrightarrow>
   IPAddresses n' = IPAddresses node \<and> n' \<in> set (nodes tx')
     \<and> (\<forall>x \<in> set (nodes tx'). ID x = ID n' \<longrightarrow> IPAddresses x = IPAddresses node)"
proof (induction k arbitrary: tx node)
  case 0
  from RegisterNode_existing_Inr [OF 0(1), of g tx pfx n' tx'] 0(2)
  have a: "n' = node\<lparr>ID := ID n'\<rparr>" and b: "n' \<in> set (nodes tx')"
    and c: "\<forall>x \<in> set (nodes tx'). ID x = ID n' \<longrightarrow> x = n'"
    by auto
  from a have "IPAddresses n' = IPAddresses (node\<lparr>ID := ID n'\<rparr>)" by simp
  then have "IPAddresses n' = IPAddresses node" by simp
  with b c show ?case by auto
next
  case (Suc k)
  obtain r tx1 where reg: "RegisterNode g tx node pfx = (r, tx1)"
    by (cases "RegisterNode g tx node pfx") auto
  with Suc.prems(2) obtain n1 where r: "r = Inr n1"
    by (cases r) auto
  from RegisterNode_existing_Inr [OF Suc.prems(1), of g tx pfx n1 tx1] reg r
  have "n1 = node\<lparr>ID := ID n1\<rparr>" by simp
  then have "IPAddresses n1 = IPAddresses (node\<lparr>ID := ID n1\<rparr>)" by simp
  then have ips: "IPAddresses n1 = IPAddresses node" by simp
  with Suc.prems(1) have ne: "IPAddresses n1 \<noteq> []" by simp
  from Suc.prems(2) reg r have "RegisterNode_repeat g k tx1 n1 pfx = (Inr n', tx')" by simp
  from Suc.IH [OF ne this] ips show ?case by simp
qed

lemma gorm_op_faults_Nil: "faults tx = [] \<Longrightarrow> gorm_op tx = (False, tx)"
  by (simp add: gorm_op_def)

lemma Save_Node_faults_Nil:
  "faults tx = [] \<Longrightarrow> Save_Node tx node = (r, n', tx') \<Longrightarrow> r = None \<and> faults tx' = []"
  by (auto simp: Save_Node_def gorm_op_faults_Nil Let_def split: if_splits)

lemma RegisterNode_existing_faults_Nil:
  assumes "IPAddresses node \<noteq> []" "faults tx = []"
  shows "\<exists>n' tx'. RegisterNode g tx node pfx = (Inr n', tx') \<and> faults tx' = []"
proof -
  obtain r n1 tx1 where s: "Save_Node tx node = (r, n1, tx1)"
    by (cases "Save_Node tx node") auto
  from Save_Node_faults_Nil [OF assms(2) s] s assms(1) show ?thesis
    by (simp add: RegisterNode_existing)
qed

lemma RegisterNode_repeat_succeeds:
  "IPAddresses node \<noteq> [] \<Longrightarrow> faults tx = [] \<Longrightarrow>
   \<exists>n' tx'. RegisterNode_repeat g k tx node pfx = (Inr n', tx')"
proof (induction k arbitrary: tx node)
  case 0
  from RegisterNode_existing_faults_Nil [OF 0, of g pfx] show ?case by auto
next
  case (Suc k)
  from RegisterNode_existing_faults_Nil [OF Suc.prems, of g pfx]
  obtain n1 tx1 where reg: "RegisterNode g tx node pfx = (Inr n1, tx1)" and f: "faults tx1 = []"
    by auto
  from RegisterNode_existing_Inr [OF Suc.prems(1) reg]
  have "n1 = node\<lparr>ID := ID n1\<rparr>" by simp
  then have "IPAddresses n1 = IPAddresses (node\<lparr>ID := ID n1\<rparr>)" by simp
  with Suc.prems(1) have ne: "IPAddresses n1 \<noteq> []" by simp
  from Suc.IH [OF ne f] reg show ?case by simp
qed

text \<open>
  C2. For a node that already has addresses, \<^verbatim>\<open>RegisterNode\<close> never consults the
  allocator (its result is the same whatever the allocator is); when the store accepts
  the statement it succeeds, returns the node as it was given (with the identifier the
  insert gave it, if it had none) and that node is a row of the table. However many
  times the registration is repeated, a node that comes back has the addresses of the
  first, and so has every row of its identifier; without storage failures every
  repetition succeeds.
\<close>

theorem RegisterNode_existing_addresses:
  assumes ips: "IPAddresses node \<noteq> []"
  shows
    "RegisterNode getAvailableIPs tx node ipPrefixes = RegisterNode allocator tx node ipPrefixes
     \<and> (\<not> fst (gorm_op tx) \<longrightarrow>
          (\<exists>n'. fst (RegisterNode getAvailableIPs tx node ipPrefixes) = Inr n'))
     \<and> (\<forall>n' tx'. RegisterNode getAvailableIPs tx node ipPrefixes = (Inr n', tx') \<longrightarrow>
          n' = node\<lparr>ID := ID n'\<rparr> \<and> (ID node \<noteq> 0 \<longrightarrow> n' = node) \<and> n' \<in> set (nodes tx'))
     \<and> (\<forall>k n' tx'. RegisterNode_repeat getAvailableIPs k tx node ipPrefixes = (Inr n', tx') \<longrightarrow>
          IPAddresses n' = IPAddresses node \<and> n' \<in> set (nodes tx')
          \<and> (\<forall>x \<in> set (nodes tx'). ID x = ID n' \<longrightarrow> IPAddresses x = IPAddresses node))
     \<and> (faults tx = [] \<longrightarrow>
          (\<forall>k. \<exists>n' tx'. RegisterNode_repeat getAvailableIPs k tx node ipPrefixes = (Inr n', tx')))"
proof (intro conjI impI allI)
  show "RegisterNode getAvailableIPs tx node ipPrefixes = RegisterNode allocator tx node ipPrefixes"
    using ips by (simp add: RegisterNode_existing)
next
  assume "\<not> fst (gorm_op tx)"
  then show "\<exists>n'. fst (RegisterNode getAvailableIPs tx node ipPrefixes) = Inr n'"
    using ips by (rule RegisterNode_existing_ok [rotated])
next
  fix n' tx'
  assume reg: "RegisterNode getAvailableIPs tx node ipPrefixes = (Inr n', tx')"
  from RegisterNode_existing_Inr [OF ips reg]
  show "n' = node\<lparr>ID := ID n'\<rparr>" "ID node \<noteq> 0 \<Longrightarrow> n' = node" "n' \<in> set (nodes tx')"
    by simp_all
next
  fix k n' tx'
  assume rep: "RegisterNode_repeat getAvailableIPs k tx node ipPrefixes = (Inr n', tx')"
  from RegisterNode_repeat_addresses [OF ips rep]
  show "IPAddresses n' = IPAddresses node" "n' \<in> set (nodes tx')"
    "\<forall>x \<in> set (nodes tx'). ID x = ID n' \<longrightarrow> IPAddresses x = IPAddresses node"
    by simp_all
next
  fix k
  assume "faults tx = []"
  with ips show "\<exists>n' tx'. RegisterNode_repeat getAvailableIPs k tx node ipPrefixes = (Inr n', tx')"
    by (rule RegisterNode_repeat_succeeds)
qed

theorem RegisterNode_existing_addresses_witness:
  "IPAddresses registered \<noteq> []
   \<and> (\<exists>n' tx'. RegisterNode_repeat example_getAvailableIPs 2 registry registered [] = (Inr n', tx')
         \<and> IPAddresses n' = [IPv4 1] \<and> n' \<in> set (nodes tx'))"
proof -
  have ips: "IPAddresses registered = [IPv4 1]"
    by (simp add: registered_def laptop_def Node_zero_def)
  then have ne: "IPAddresses registered \<noteq> []" by simp
  have f: "faults registry = []"
    by (simp add: registry_def State_zero_def)
  note t = RegisterNode_existing_addresses [OF ne, of example_getAvailableIPs registry "[]"]
  from t f obtain n' tx' where
    r: "RegisterNode_repeat example_getAvailableIPs 2 registry registered [] = (Inr n', tx')"
    by blast
  with t have "IPAddresses n' = IPAddresses registered \<and> n' \<in> set (nodes tx')" by blast
  with r ips ne show ?thesis by auto
qed

subsection \<open>RegisterNodeFromAuthCallback\<close>

text \<open>
  C7. \<^verbatim>\<open>RegisterNodeFromAuthCallback\<close> removes the cache entry of the machine key
  exactly when it returns a node: on success there was an entry and the cache it leaves
  is the old one without it, on every error the cache is the one it was given. The
  errors of the lookup are spelled out: no entry, an entry that is not a node, a
  failing user lookup, and a cached node with an identifier whose owner is not the
  user now authorizing; a failing registration write is an error like any other.
\<close>

theorem RegisterNodeFromAuthCallback_cache:
  "(case RegisterNodeFromAuthCallback getAvailableIPs tx cache mkey userName nodeExpiry
           registrationMethod ipPrefixes of
      (Inr node, cache', tx') \<Rightarrow> cache mkey \<noteq> None \<and> cache' = cache(mkey := None)
    | (Inl err, cache', tx') \<Rightarrow> cache' = cache)
   \<and> (cache mkey = None \<longrightarrow>
        RegisterNodeFromAuthCallback getAvailableIPs tx cache mkey userName nodeExpiry
            registrationMethod ipPrefixes =
          (Inl ErrNodeNotFoundRegistrationCache, cache, tx))
   \<and> (cache mkey = Some CachedOther \<longrightarrow>
        RegisterNodeFromAuthCallback getAvailableIPs tx cache mkey userName nodeExpiry
            registrationMethod ipPrefixes =
          (Inl ErrCouldNotConvertNodeInterface, cache, tx))
   \<and> (\<forall>registrationNode err tx1.
        cache mkey = Some (CachedNode registrationNode) \<and> GetUser tx userName = (Inl err, tx1) \<longrightarrow>
        RegisterNodeFromAuthCallback getAvailableIPs tx cache mkey userName nodeExpiry
            registrationMethod ipPrefixes =
          (Inl (Wrapped ''failed to find user in register node from auth callback'' err),
           cache, tx1))
   \<and> (\<forall>registrationNode user tx1.
        cache mkey = Some (CachedNode registrationNode) \<and> GetUser tx userName = (Inr user, tx1)
        \<and> ID registrationNode \<noteq> 0 \<and> UserID registrationNode \<noteq> User_ID user \<longrightarrow>
        RegisterNodeFromAuthCallback getAvailableIPs tx cache mkey userName nodeExpiry
            registrationMethod ipPrefixes =
          (Inl ErrDifferentRegisteredUser, cache, tx1))"
  by (auto simp: RegisterNodeFromAuthCallback_def Let_def
      split: option.splits CacheItem.splits sum.splits prod.splits)

theorem RegisterNodeFromAuthCallback_cache_witness:
  "(\<exists>node tx'.
      RegisterNodeFromAuthCallback example_getAvailableIPs registry pending_cache
          ''mkey:a'' ''alice'' (Some 100) ''cli'' [] =
        (Inr node, pending_cache(''mkey:a'' := None), tx'))
   \<and> (\<exists>err tx'.
      RegisterNodeFromAuthCallback example_getAvailableIPs (registry\<lparr>faults := [False, True]\<rparr>)
          pending_cache ''mkey:a'' ''alice'' (Some 100) ''cli'' [] =
        (Inl err, pending_cache, tx'))"
proof -
  let ?ok = "RegisterNodeFromAuthCallback example_getAvailableIPs registry pending_cache
      ''mkey:a'' ''alice'' (Some 100) ''cli'' []"
  let ?bad = "RegisterNodeFromAuthCallback example_getAvailableIPs
      (registry\<lparr>faults := [False, True]\<rparr>) pending_cache ''mkey:a'' ''alice'' (Some 100) ''cli'' []"
  have a: "\<exists>node. fst ?ok = Inr node"
    by (simp add: RegisterNodeFromAuthCallback_def GetUser_def gorm_op_def RegisterNode_def
        Save_Node_def pending_cache_def registry_def State_zero_def registered_def laptop_def
        phone_def Node_zero_def alice_def Let_def)
  have b: "\<exists>err. fst ?bad = Inl err"
    by (simp add: RegisterNodeFromAuthCallback_def GetUser_def gorm_op_def RegisterNode_def
        Save_Node_def pending_cache_def registry_def State_zero_def registered_def laptop_def
        phone_def Node_zero_def alice_def Let_def)
  obtain r c t where ok: "?ok = (r, c, t)"
    by (cases ?ok) auto
  with a obtain node where r: "r = Inr node" by auto
  from RegisterNodeFromAuthCallback_cache [where getAvailableIPs = example_getAvailableIPs
      and tx = registry and cache = pending_cache and mkey = "''mkey:a''" and userName = "''alice''"
      and nodeExpiry = "Some 100" and registrationMethod = "''cli''" and ipPrefixes = "[]"] ok r
  have c: "c = pending_cache(''mkey:a'' := None)" by simp
  obtain r' c' t' where bad: "?bad = (r', c', t')"
    by (cases ?bad) auto
  with b obtain err where r': "r' = Inl err" by auto
  from RegisterNodeFromAuthCallback_cache [where getAvailableIPs = example_getAvailableIPs
      and tx = "registry\<lparr>faults := [False, True]\<rparr>" and cache = pending_cache
      and mkey = "''mkey:a''" and userName = "''alice''"
      and nodeExpiry = "Some 100" and registrationMethod = "''cli''" and ipPrefixes = "[]"] bad r'
  have c': "c' = pending_cache" by simp
  from ok r c bad r' c' show ?thesis by auto
qed

subsection \<open>enableRoutes: the batch is checked first\<close>

lemma GetAdvertisedRoutes_eq:
  "GetAdvertisedRoutes tx node =
     (if fst (gorm_op tx) then Inl ErrStorage
      else Inr (map Route_Prefix (filter (\<lambda>r. NodeID r = ID node \<and> Advertised r) (routes tx))),
      snd (gorm_op tx))"
  by (simp add: GetAdvertisedRoutes_def split_beta)

lemma enableRoutes_available_iff:
  "enableRoutes_available adv ps =
     (if set ps \<subseteq> set adv then None
      else Some (Wrapped ''route is not available on node'' ErrNodeRouteIsNotAvailable))"
  by (induction ps) (auto simp: StringOrPrefixListContains_iff)

text \<open>
  C1. When the route strings parse and one of the requested prefixes is not among the
  prefixes the node advertises, \<^verbatim>\<open>enableRoutes\<close> returns an error, which is the wrapped
  \<^verbatim>\<open>ErrNodeRouteIsNotAvailable\<close> whenever the read of the advertised routes did not
  itself fail. Nothing is written: the state it leaves is the state after that one read,
  so no route row (no \<open>Enabled\<close>, no \<open>IsPrimary\<close> flag), no node and no user has changed.
  The whole batch is checked before the loop that writes is entered.
\<close>

theorem enableRoutes_not_available:
  assumes parsed: "enableRoutes_newRoutes ParsePrefix routeStrs = Inr newRoutes"
    and missing: "\<exists>p \<in> set newRoutes.
       p \<notin> Route_Prefix ` {r \<in> set (routes tx). NodeID r = ID node \<and> Advertised r}"
  shows
    "(\<exists>err. fst (enableRoutes ParsePrefix tx node routeStrs) = Inl err
        \<and> (\<not> fst (gorm_op tx) \<longrightarrow>
             err = Wrapped ''route is not available on node'' ErrNodeRouteIsNotAvailable
             \<and> errors_Is err ErrNodeRouteIsNotAvailable))
     \<and> snd (enableRoutes ParsePrefix tx node routeStrs) = snd (gorm_op tx)
     \<and> routes (snd (enableRoutes ParsePrefix tx node routeStrs)) = routes tx
     \<and> nodes (snd (enableRoutes ParsePrefix tx node routeStrs)) = nodes tx
     \<and> users (snd (enableRoutes ParsePrefix tx node routeStrs)) = users tx"
proof -
  let ?adv = "map Route_Prefix (filter (\<lambda>r. NodeID r = ID node \<and> Advertised r) (routes tx))"
  from missing have "\<not> set newRoutes \<subseteq> set ?adv" by auto
  then have "enableRoutes_available ?adv newRoutes =
      Some (Wrapped ''route is not available on node'' ErrNodeRouteIsNotAvailable)"
    by (simp add: enableRoutes_available_iff)
  then show ?thesis
    by (simp add: enableRoutes_def parsed GetAdvertisedRoutes_eq)
qed

lemmas example_routes_defs =
  sole_offer_def second_offer_def two_nodes_def State_zero_def laptop_def phone_def
  Node_zero_def advertised_route_def subnet_1_def subnet_5_def ExitRouteV4_def ExitRouteV6_def
  example_ParsePrefix_def

theorem enableRoutes_not_available_witness:
  "enableRoutes_newRoutes example_ParsePrefix [''10.0.1.0/24'', ''10.0.5.0/24''] =
     Inr [subnet_1, subnet_5]
   \<and> subnet_5 \<notin> Route_Prefix ` {r \<in> set (routes sole_offer). NodeID r = ID laptop \<and> Advertised r}
   \<and> fst (enableRoutes example_ParsePrefix sole_offer laptop [''10.0.1.0/24'', ''10.0.5.0/24'']) =
       Inl (Wrapped ''route is not available on node'' ErrNodeRouteIsNotAvailable)
   \<and> routes (snd (enableRoutes example_ParsePrefix sole_offer laptop
         [''10.0.1.0/24'', ''10.0.5.0/24''])) = routes sole_offer"
proof -
  have p: "enableRoutes_newRoutes example_ParsePrefix [''10.0.1.0/24'', ''10.0.5.0/24''] =
     Inr [subnet_1, subnet_5]"
    by (simp add: example_ParsePrefix_def)
  have m: "subnet_5 \<notin> Route_Prefix ` {r \<in> set (routes sole_offer). NodeID r = ID laptop \<and> Advertised r}"
    by (auto simp: example_routes_defs)
  then have m': "\<exists>p \<in> set [subnet_1, subnet_5].
      p \<notin> Route_Prefix ` {r \<in> set (routes sole_offer). NodeID r = ID laptop \<and> Advertised r}"
    by simp
  have g: "\<not> fst (gorm_op sole_offer)"
    by (simp add: gorm_op_def example_routes_defs)
  from enableRoutes_not_available [OF p m'] g p m show ?thesis
    by auto
qed

subsection \<open>enableRoutes: enabling and the primary flag\<close>

lemma enabled_row_keys [simp]:
  "Route_ID (enabled_row tx r) = Route_ID r"
  "NodeID (enabled_row tx r) = NodeID r"
  "Route_Prefix (enabled_row tx r) = Route_Prefix r"
  "Advertised (enabled_row tx r) = Advertised r"
  "Enabled (enabled_row tx r) = True"
  by (simp_all add: enabled_row_def)

lemma enable_rows_keys [simp]:
  "Route_ID (enable_rows tx n S r) = Route_ID r"
  "NodeID (enable_rows tx n S r) = NodeID r"
  "Route_Prefix (enable_rows tx n S r) = Route_Prefix r"
  "Advertised (enable_rows tx n S r) = Advertised r"
  by (simp_all add: enable_rows_def)

lemma enable_rows_other [simp]: "NodeID r \<noteq> n \<Longrightarrow> enable_rows tx n S r = r"
  by (simp add: enable_rows_def)

lemma IsExitRoute_keys:
  "Route_Prefix r = Route_Prefix r' \<Longrightarrow> IsExitRoute r = IsExitRoute r'"
  by (simp add: IsExitRoute_def)

lemma isUniquePrefix_filter:
  "isUniquePrefix tx r =
     (\<not> list_ex (\<lambda>x. Route_Prefix x = Route_Prefix r \<and> (Enabled x \<or> Advertised x))
           (filter (\<lambda>x. NodeID x \<noteq> NodeID r) (routes tx)))"
  by (auto simp: isUniquePrefix_def list_ex_iff)

lemma isUniquePrefix_cong:
  assumes "Route_Prefix r = Route_Prefix r'" "NodeID r = NodeID r'"
    and "filter (\<lambda>x. NodeID x \<noteq> NodeID r) (routes tx) =
         filter (\<lambda>x. NodeID x \<noteq> NodeID r) (routes tx')"
  shows "isUniquePrefix tx r = isUniquePrefix tx' r'"
  using assms by (simp add: isUniquePrefix_filter)

lemma filter_enable_rows_other:
  "filter (\<lambda>x. NodeID x \<noteq> n) (map (enable_rows tx n S) T) = filter (\<lambda>x. NodeID x \<noteq> n) T"
  by (induction T) auto

lemma enabled_row_idem:
  "enabled_row tx (enabled_row tx r) = enabled_row tx r"
  by (simp add: enabled_row_def IsExitRoute_def isUniquePrefix_def)

lemma find_enable_rows:
  "find (\<lambda>y. NodeID y = n \<and> Route_Prefix y = p) (map (enable_rows tx m S) T) =
   map_option (enable_rows tx m S) (find (\<lambda>y. NodeID y = n \<and> Route_Prefix y = p) T)"
  by (induction T) auto

lemma First_Route_eq:
  "First_Route tx n p =
     (if fst (gorm_op tx) then Inl ErrStorage
      else case find (\<lambda>r. NodeID r = n \<and> Route_Prefix r = p) (routes tx) of
             None \<Rightarrow> Inl ErrRecordNotFound | Some route \<Rightarrow> Inr route,
      snd (gorm_op tx))"
  by (simp add: First_Route_def split_beta split: option.splits)

lemma Save_Route_replace:
  assumes "Save_Route tx route = (None, tx')" "Route_ID route \<noteq> 0"
    and "list_ex (\<lambda>r. Route_ID r = Route_ID route) (routes tx)"
  shows "routes tx' = map (\<lambda>r. if Route_ID r = Route_ID route then route else r) (routes tx)"
    and "nodes tx' = nodes tx" and "users tx' = users tx"
  using assms by (auto simp: Save_Route_def split_beta split: if_splits)

lemma loop_body_row:
  assumes "route = r0 \<or> route = enabled_row tx0 r0"
    and "filter (\<lambda>x. NodeID x \<noteq> NodeID r0) (routes tx1) =
         filter (\<lambda>x. NodeID x \<noteq> NodeID r0) (routes tx0)"
  shows "(if \<not> IsExitRoute (route\<lparr>Enabled := True\<rparr>)
          then route\<lparr>Enabled := True, IsPrimary := isUniquePrefix tx1 (route\<lparr>Enabled := True\<rparr>)\<rparr>
          else route\<lparr>Enabled := True\<rparr>) = enabled_row tx0 r0"
proof -
  have u: "isUniquePrefix tx1 (route\<lparr>Enabled := True\<rparr>) = isUniquePrefix tx0 r0"
    using assms(1) by (intro isUniquePrefix_cong) (auto simp: assms(2))
  have e: "IsExitRoute (route\<lparr>Enabled := True\<rparr>) = IsExitRoute r0"
    using assms(1) by (auto simp: IsExitRoute_def)
  show ?thesis
    using assms(1) by (auto simp: u e enabled_row_def)
qed

lemma distinct_Route_ID_eq:
  "distinct (map Route_ID T) \<Longrightarrow> x \<in> set T \<Longrightarrow> y \<in> set T \<Longrightarrow> Route_ID x = Route_ID y \<Longrightarrow> x = y"
  by (meson distinct_map inj_on_def)

lemma enableRoutes_enable_step:
  assumes "enableRoutes_enable tx node (p # ps) = (None, tx')"
  obtains route tx2 where
    "\<not> fst (gorm_op tx)"
    "find (\<lambda>r. NodeID r = ID node \<and> Route_Prefix r = p) (routes tx) = Some route"
    "Save_Route (snd (gorm_op tx))
       (if \<not> IsExitRoute (route\<lparr>Enabled := True\<rparr>)
        then route\<lparr>Enabled := True,
               IsPrimary := isUniquePrefix (snd (gorm_op tx)) (route\<lparr>Enabled := True\<rparr>)\<rparr>
        else route\<lparr>Enabled := True\<rparr>) = (None, tx2)"
    "enableRoutes_enable tx2 node ps = (None, tx')"
  using assms
  by (auto simp: First_Route_eq Let_def split: if_splits option.splits prod.splits)

lemma enableRoutes_enable_rows:
  assumes dist: "distinct (map Route_ID (routes tx0))"
    and nz: "\<forall>r\<in>set (routes tx0). Route_ID r \<noteq> 0"
  shows "routes tx = map (enable_rows tx0 (ID node) S) (routes tx0) \<Longrightarrow>
     enableRoutes_enable tx node ps = (None, tx') \<Longrightarrow>
     routes tx' =
       map (enable_rows tx0 (ID node)
             (S \<union> {Route_ID r |r p. p \<in> set ps \<and>
                   find (\<lambda>y. NodeID y = ID node \<and> Route_Prefix y = p) (routes tx0) = Some r}))
         (routes tx0)
     \<and> nodes tx' = nodes tx \<and> users tx' = users tx"
proof (induction ps arbitrary: tx S)
  case Nil
  then show ?case by simp
next
  case (Cons p ps)
  let ?n = "ID node"
  let ?T0 = "routes tx0"
  let ?tx1 = "snd (gorm_op tx)"
  from Cons.prems(2) obtain route tx2 where
    found: "find (\<lambda>r. NodeID r = ?n \<and> Route_Prefix r = p) (routes tx) = Some route"
    and saved: "Save_Route ?tx1
       (if \<not> IsExitRoute (route\<lparr>Enabled := True\<rparr>)
        then route\<lparr>Enabled := True,
               IsPrimary := isUniquePrefix ?tx1 (route\<lparr>Enabled := True\<rparr>)\<rparr>
        else route\<lparr>Enabled := True\<rparr>) = (None, tx2)"
    and rest: "enableRoutes_enable tx2 node ps = (None, tx')"
    by (rule enableRoutes_enable_step)
  from found Cons.prems(1) obtain r0 where
    r0: "find (\<lambda>y. NodeID y = ?n \<and> Route_Prefix y = p) ?T0 = Some r0"
    and route: "route = enable_rows tx0 ?n S r0"
    by (auto simp: find_enable_rows)
  from r0 have r0_in: "r0 \<in> set ?T0" and r0_n: "NodeID r0 = ?n" and r0_p: "Route_Prefix r0 = p"
    by (auto simp: find_Some_iff)
  have cases: "route = r0 \<or> route = enabled_row tx0 r0"
    by (simp add: route enable_rows_def)
  have frame: "filter (\<lambda>x. NodeID x \<noteq> NodeID r0) (routes ?tx1) =
      filter (\<lambda>x. NodeID x \<noteq> NodeID r0) (routes tx0)"
    by (simp add: Cons.prems(1) r0_n filter_enable_rows_other)
  note saved' = saved [unfolded loop_body_row [OF cases frame]]
  have ex: "list_ex (\<lambda>r. Route_ID r = Route_ID (enabled_row tx0 r0)) (routes ?tx1)"
    using r0_in by (auto simp: list_ex_iff Cons.prems(1))
  have nz0: "Route_ID (enabled_row tx0 r0) \<noteq> 0"
    using nz r0_in by simp
  from Save_Route_replace [OF saved' nz0 ex]
  have t2: "routes tx2 =
      map (\<lambda>r. if Route_ID r = Route_ID r0 then enabled_row tx0 r0 else r) (routes tx)"
    and n2: "nodes tx2 = nodes tx" and u2: "users tx2 = users tx"
    by simp_all
  have "routes tx2 = map (enable_rows tx0 ?n (insert (Route_ID r0) S)) ?T0"
    unfolding t2 Cons.prems(1) map_map
  proof (rule map_cong [OF refl])
    fix x
    assume x: "x \<in> set ?T0"
    show "((\<lambda>r. if Route_ID r = Route_ID r0 then enabled_row tx0 r0 else r) \<circ>
            enable_rows tx0 ?n S) x = enable_rows tx0 ?n (insert (Route_ID r0) S) x"
    proof (cases "Route_ID x = Route_ID r0")
      case True
      with dist x r0_in have "x = r0" by (rule distinct_Route_ID_eq)
      then show ?thesis by (simp add: enable_rows_def r0_n)
    next
      case False
      then show ?thesis by (simp add: enable_rows_def)
    qed
  qed
  from Cons.IH [OF this rest] n2 u2
  have "routes tx' =
       map (enable_rows tx0 ?n
             (insert (Route_ID r0) S \<union> {Route_ID r |r q. q \<in> set ps \<and>
                   find (\<lambda>y. NodeID y = ?n \<and> Route_Prefix y = q) ?T0 = Some r})) ?T0"
    and "nodes tx' = nodes tx" and "users tx' = users tx"
    by simp_all
  moreover have "insert (Route_ID r0) S \<union> {Route_ID r |r q. q \<in> set ps \<and>
                   find (\<lambda>y. NodeID y = ?n \<and> Route_Prefix y = q) ?T0 = Some r} =
     S \<union> {Route_ID r |r q. q \<in> set (p # ps) \<and>
                   find (\<lambda>y. NodeID y = ?n \<and> Route_Prefix y = q) ?T0 = Some r}"
    using r0 by auto
  ultimately show ?case by simp
qed

lemma enableRoutes_newRoutes_set:
  "enableRoutes_newRoutes P strs = Inr ps \<Longrightarrow> s \<in> set strs \<Longrightarrow> P s = Inr p \<Longrightarrow> p \<in> set ps"
  by (induction strs arbitrary: ps) (auto split: sum.splits)

lemma GetNodeRoutes_eq:
  "GetNodeRoutes tx node =
     (if fst (gorm_op tx) then Inl ErrStorage
      else Inr (filter (\<lambda>r. NodeID r = ID node) (routes tx)), snd (gorm_op tx))"
  by (simp add: GetNodeRoutes_def split_beta)

lemma enableRoutes_Inr:
  assumes "enableRoutes ParsePrefix tx node routeStrs = (Inr update, tx')"
  obtains newRoutes tx2 where
    "enableRoutes_newRoutes ParsePrefix routeStrs = Inr newRoutes"
    "enableRoutes_enable (snd (gorm_op tx)) node newRoutes = (None, tx2)"
    "tx' = snd (gorm_op tx2)"
  using assms
  by (auto simp: enableRoutes_def GetAdvertisedRoutes_eq GetNodeRoutes_eq
      split: sum.splits if_splits option.splits prod.splits)

lemma enable_rows_empty: "map (enable_rows tx n {}) T = T"
  by (induction T) (simp_all add: enable_rows_def)

lemma enableRoutes_rows:
  assumes dist: "distinct (map Route_ID (routes tx))"
    and nz: "\<forall>r\<in>set (routes tx). Route_ID r \<noteq> 0"
    and ok: "enableRoutes ParsePrefix tx node routeStrs = (Inr update, tx')"
  obtains newRoutes where
    "enableRoutes_newRoutes ParsePrefix routeStrs = Inr newRoutes"
    "routes tx' =
       map (enable_rows tx (ID node)
             {Route_ID r |r p. p \<in> set newRoutes \<and>
                find (\<lambda>y. NodeID y = ID node \<and> Route_Prefix y = p) (routes tx) = Some r})
         (routes tx)"
    "nodes tx' = nodes tx" "users tx' = users tx"
proof -
  from ok obtain newRoutes tx2 where
    p: "enableRoutes_newRoutes ParsePrefix routeStrs = Inr newRoutes"
    and e: "enableRoutes_enable (snd (gorm_op tx)) node newRoutes = (None, tx2)"
    and t: "tx' = snd (gorm_op tx2)"
    by (rule enableRoutes_Inr)
  have start: "routes (snd (gorm_op tx)) = map (enable_rows tx (ID node) {}) (routes tx)"
    by (simp add: enable_rows_empty)
  from enableRoutes_enable_rows [OF dist nz start e] t
  have "routes tx' =
       map (enable_rows tx (ID node)
             {Route_ID r |r p. p \<in> set newRoutes \<and>
                find (\<lambda>y. NodeID y = ID node \<and> Route_Prefix y = p) (routes tx) = Some r})
         (routes tx)" "nodes tx' = nodes tx" "users tx' = users tx"
    by simp_all
  with p show thesis by (rule that)
qed

text \<open>
  C3. In a route table whose identifiers are distinct and not zero, a successful
  \<^verbatim>\<open>enableRoutes\<close> leaves, for every requested prefix, the row it found for it enabled;
  when the prefix is not an exit route the row's \<open>IsPrimary\<close> is the answer of
  \<^verbatim>\<open>isUniquePrefix\<close> on the table as it was before the call, so it is \<open>True\<close> when the
  node is the only one offering the prefix; the row of an exit route keeps the
  \<open>IsPrimary\<close> it had, and no exit route is primary afterwards that was not before. The
  rows of every other node are exactly as they were: a node that enables a prefix later
  does not touch the primary flag of the node that enabled it first.
\<close>

theorem enableRoutes_primary:
  assumes dist: "distinct (map Route_ID (routes tx))"
    and nz: "\<forall>r\<in>set (routes tx). Route_ID r \<noteq> 0"
    and ok: "enableRoutes ParsePrefix tx node routeStrs = (Inr update, tx')"
    and str: "routeStr \<in> set routeStrs" "ParsePrefix routeStr = Inr prefix"
    and row: "find (\<lambda>r. NodeID r = ID node \<and> Route_Prefix r = prefix) (routes tx) = Some route"
  shows
    "(\<exists>route' \<in> set (routes tx').
        route' = route\<lparr>Enabled := True, IsPrimary := IsPrimary route'\<rparr>
        \<and> (\<not> IsExitRoute route \<longrightarrow> IsPrimary route' = isUniquePrefix tx route)
        \<and> (\<not> IsExitRoute route \<and> isUniquePrefix tx route \<longrightarrow> IsPrimary route' = True)
        \<and> (IsExitRoute route \<longrightarrow> IsPrimary route' = IsPrimary route))
     \<and> (\<forall>r' \<in> set (routes tx'). IsExitRoute r' \<and> IsPrimary r' \<longrightarrow>
          (\<exists>r \<in> set (routes tx). Route_ID r = Route_ID r' \<and> IsPrimary r))
     \<and> filter (\<lambda>r. NodeID r \<noteq> ID node) (routes tx') =
         filter (\<lambda>r. NodeID r \<noteq> ID node) (routes tx)"
proof -
  from dist nz ok obtain newRoutes where
    p: "enableRoutes_newRoutes ParsePrefix routeStrs = Inr newRoutes"
    and t: "routes tx' =
       map (enable_rows tx (ID node)
             {Route_ID r |r p. p \<in> set newRoutes \<and>
                find (\<lambda>y. NodeID y = ID node \<and> Route_Prefix y = p) (routes tx) = Some r})
         (routes tx)"
    by (rule enableRoutes_rows)
  let ?S = "{Route_ID r |r p. p \<in> set newRoutes \<and>
                find (\<lambda>y. NodeID y = ID node \<and> Route_Prefix y = p) (routes tx) = Some r}"
  from enableRoutes_newRoutes_set [OF p str] have "prefix \<in> set newRoutes" .
  with row have inS: "Route_ID route \<in> ?S" by auto
  from row have r_in: "route \<in> set (routes tx)" and r_n: "NodeID route = ID node"
    by (auto simp: find_Some_iff)
  have "enabled_row tx route \<in> set (routes tx')"
    unfolding t using r_in inS r_n by (force simp: enable_rows_def)
  then have a: "\<exists>route' \<in> set (routes tx').
        route' = route\<lparr>Enabled := True, IsPrimary := IsPrimary route'\<rparr>
        \<and> (\<not> IsExitRoute route \<longrightarrow> IsPrimary route' = isUniquePrefix tx route)
        \<and> (\<not> IsExitRoute route \<and> isUniquePrefix tx route \<longrightarrow> IsPrimary route' = True)
        \<and> (IsExitRoute route \<longrightarrow> IsPrimary route' = IsPrimary route)"
    by (rule rev_bexI) (simp add: enabled_row_def)
  have b: "\<forall>r' \<in> set (routes tx'). IsExitRoute r' \<and> IsPrimary r' \<longrightarrow>
          (\<exists>r \<in> set (routes tx). Route_ID r = Route_ID r' \<and> IsPrimary r)"
    unfolding t by (auto simp: enable_rows_def enabled_row_def IsExitRoute_def split: if_splits)
  have c: "filter (\<lambda>r. NodeID r \<noteq> ID node) (routes tx') =
         filter (\<lambda>r. NodeID r \<noteq> ID node) (routes tx)"
    unfolding t by (rule filter_enable_rows_other)
  from a b c show ?thesis by blast
qed

lemmas enableRoutes_eval =
  enableRoutes_def GetAdvertisedRoutes_eq GetNodeRoutes_eq First_Route_eq Save_Route_def
  gorm_op_def IsExitRoute_def isUniquePrefix_def Let_def

theorem enableRoutes_primary_witness:
  "(advertised_route 1 1 subnet_1)\<lparr>Enabled := True, IsPrimary := True\<rparr> \<in>
     set (routes (snd (enableRoutes example_ParsePrefix sole_offer laptop
            [''10.0.1.0/24'', ''0.0.0.0/0''])))
   \<and> filter (\<lambda>r. NodeID r \<noteq> ID phone)
        (routes (snd (enableRoutes example_ParsePrefix second_offer phone [''10.0.1.0/24'']))) =
       [(advertised_route 1 1 subnet_1)\<lparr>Enabled := True, IsPrimary := True\<rparr>,
        (advertised_route 2 1 ExitRouteV4)\<lparr>Enabled := True\<rparr>]"
proof -
  let ?one = "enableRoutes example_ParsePrefix sole_offer laptop [''10.0.1.0/24'', ''0.0.0.0/0'']"
  let ?two = "enableRoutes example_ParsePrefix second_offer phone [''10.0.1.0/24'']"
  let ?row = "advertised_route 1 1 subnet_1"
  have d1: "distinct (map Route_ID (routes sole_offer))"
    and z1: "\<forall>r\<in>set (routes sole_offer). Route_ID r \<noteq> 0"
    and d2: "distinct (map Route_ID (routes second_offer))"
    and z2: "\<forall>r\<in>set (routes second_offer). Route_ID r \<noteq> 0"
    by (simp_all add: example_routes_defs)
  have "\<exists>u. fst ?one = Inr u"
    by (simp add: enableRoutes_eval example_routes_defs)
  then obtain u1 t1 where ok1: "?one = (Inr u1, t1)"
    by (cases ?one) auto
  have "\<exists>u. fst ?two = Inr u"
    by (simp add: enableRoutes_eval example_routes_defs)
  then obtain u2 t2 where ok2: "?two = (Inr u2, t2)"
    by (cases ?two) auto
  have s: "''10.0.1.0/24'' \<in> set [''10.0.1.0/24'', ''0.0.0.0/0'']"
    "''10.0.1.0/24'' \<in> set [''10.0.1.0/24'']"
    and pp: "example_ParsePrefix ''10.0.1.0/24'' = Inr subnet_1"
    by (simp_all add: example_ParsePrefix_def)
  have f1: "find (\<lambda>r. NodeID r = ID laptop \<and> Route_Prefix r = subnet_1) (routes sole_offer) =
      Some ?row"
    by (simp add: example_routes_defs)
  have f2: "find (\<lambda>r. NodeID r = ID phone \<and> Route_Prefix r = subnet_1) (routes second_offer) =
      Some (advertised_route 3 2 subnet_1)"
    by (simp add: example_routes_defs)
  have x: "\<not> IsExitRoute ?row" and q: "isUniquePrefix sole_offer ?row"
    by (simp_all add: IsExitRoute_def isUniquePrefix_def example_routes_defs)
  from enableRoutes_primary [OF d1 z1 ok1 s(1) pp f1] x q
  have a: "?row\<lparr>Enabled := True, IsPrimary := True\<rparr> \<in> set (routes t1)"
    by auto
  from enableRoutes_primary [OF d2 z2 ok2 s(2) pp f2]
  have "filter (\<lambda>r. NodeID r \<noteq> ID phone) (routes t2) =
     filter (\<lambda>r. NodeID r \<noteq> ID phone) (routes second_offer)"
    by blast
  also have "\<dots> = [?row\<lparr>Enabled := True, IsPrimary := True\<rparr>,
        (advertised_route 2 1 ExitRouteV4)\<lparr>Enabled := True\<rparr>]"
    by (simp add: example_routes_defs)
  finally show ?thesis
    using a ok1 ok2 by simp
qed

subsection \<open>The expiry sweep\<close>

lemma time_Now_frame [simp]:
  "nodes (snd (time_Now tx)) = nodes tx"
  "routes (snd (time_Now tx)) = routes tx"
  "users (snd (time_Now tx)) = users tx"
  "faults (snd (time_Now tx)) = faults tx"
  by (simp_all add: time_Now_def split: list.splits)

lemma time_Now_clock [simp]: "clock (snd (time_Now tx)) = fst (time_Now tx)"
  by (simp add: time_Now_def split: list.splits)

lemma time_Now_mono: "clock tx \<le> fst (time_Now tx)"
  by (simp add: time_Now_def split: list.splits)

lemma gorm_op_faults [simp]: "faults tx = [] \<Longrightarrow> faults (snd (gorm_op tx)) = []"
  "faults tx = [] \<Longrightarrow> \<not> fst (gorm_op tx)"
  by (simp_all add: gorm_op_def)

lemma IsExpired_frame [simp]:
  "nodes (snd (IsExpired tx n)) = nodes tx"
  "routes (snd (IsExpired tx n)) = routes tx"
  "users (snd (IsExpired tx n)) = users tx"
  "faults (snd (IsExpired tx n)) = faults tx"
  by (simp_all add: IsExpired_def split_beta split: option.splits)

lemma IsExpired_mono: "clock tx \<le> clock (snd (IsExpired tx n))"
  by (simp add: IsExpired_def split_beta time_Now_mono split: option.splits)

lemma IsExpired_True:
  "fst (IsExpired tx n) \<Longrightarrow> \<exists>e. Expiry n = Some e \<and> e < clock (snd (IsExpired tx n))"
  by (auto simp: IsExpired_def split_beta split: option.splits)

lemma IsExpired_past:
  "Expiry n = Some e \<Longrightarrow> e < clock tx \<Longrightarrow> fst (IsExpired tx n)"
  using time_Now_mono [of tx] by (simp add: IsExpired_def split_beta)

lemma Updates_Expiry_frame [simp]:
  "clock (snd (Updates_Expiry tx n t)) = clock tx"
  "ticks (snd (Updates_Expiry tx n t)) = ticks tx"
  "routes (snd (Updates_Expiry tx n t)) = routes tx"
  "users (snd (Updates_Expiry tx n t)) = users tx"
  by (simp_all add: Updates_Expiry_def Update_where_id_def split_beta)

lemma Updates_Expiry_faults [simp]:
  "faults tx = [] \<Longrightarrow> faults (snd (Updates_Expiry tx n t)) = []"
  by (simp add: Updates_Expiry_def Update_where_id_def split_beta)

lemma Updates_Expiry_nodes:
  "nodes (snd (Updates_Expiry tx n t)) = nodes tx \<or>
   nodes (snd (Updates_Expiry tx n t)) =
     map (\<lambda>r. if ID r = ID n then r\<lparr>Expiry := Some t\<rparr> else r) (nodes tx)"
  by (simp add: Updates_Expiry_def Update_where_id_def split_beta)

lemma Updates_Expiry_nodes_ok:
  "faults tx = [] \<Longrightarrow> ID n \<noteq> 0 \<Longrightarrow>
   nodes (snd (Updates_Expiry tx n t)) =
     map (\<lambda>r. if ID r = ID n then r\<lparr>Expiry := Some t\<rparr> else r) (nodes tx)"
  by (simp add: Updates_Expiry_def Update_where_id_def split_beta)

text \<open>One round of the loop, with the pairs taken apart.\<close>

lemma ExpireExpiredNodes_nodes_Cons:
  "ExpireExpiredNodes_nodes lc (n # ns) expired tx =
     (if fst (IsExpired tx n) \<and> After (Expiry n) lc then
        ExpireExpiredNodes_nodes lc ns
          (expired @ [\<lparr>PeerChange_NodeID = ID n, KeyExpiry = Expiry n\<rparr>])
          (snd (Updates_Expiry (snd (time_Now (snd (IsExpired tx n)))) n
                 (fst (time_Now (snd (IsExpired tx n))))))
      else ExpireExpiredNodes_nodes lc ns expired (snd (IsExpired tx n)))"
  by (simp add: split_beta Let_def)

lemma ExpireExpiredNodes_nodes_clock:
  "clock tx \<le> clock (snd (ExpireExpiredNodes_nodes lc ns expired tx))"
proof (induction ns arbitrary: expired tx)
  case Nil
  then show ?case by simp
next
  case (Cons n ns)
  let ?t1 = "snd (IsExpired tx n)"
  let ?t3 = "snd (Updates_Expiry (snd (time_Now ?t1)) n (fst (time_Now ?t1)))"
  have a: "clock tx \<le> clock ?t1" by (rule IsExpired_mono)
  have b: "clock ?t1 \<le> clock ?t3" by (simp add: time_Now_mono)
  show ?case
    unfolding ExpireExpiredNodes_nodes_Cons
    using a b Cons.IH [of ?t1] Cons.IH [of ?t3]
    by (auto intro: order_trans)
qed

lemma ExpireExpiredNodes_nodes_patches:
  "\<exists>new. fst (ExpireExpiredNodes_nodes lc ns expired tx) = expired @ new \<and>
     (\<forall>p \<in> set new. \<exists>n \<in> set ns. \<exists>e.
        PeerChange_NodeID p = ID n \<and> KeyExpiry p = Expiry n \<and> Expiry n = Some e \<and> lc < e \<and>
        e < clock (snd (ExpireExpiredNodes_nodes lc ns expired tx)))"
proof (induction ns arbitrary: expired tx)
  case Nil
  then show ?case by simp
next
  case (Cons n ns)
  let ?t1 = "snd (IsExpired tx n)"
  let ?t3 = "snd (Updates_Expiry (snd (time_Now ?t1)) n (fst (time_Now ?t1)))"
  let ?patch = "\<lparr>PeerChange_NodeID = ID n, KeyExpiry = Expiry n\<rparr>"
  show ?case
  proof (cases "fst (IsExpired tx n) \<and> After (Expiry n) lc")
    case True
    then obtain e where e: "Expiry n = Some e" "e < clock ?t1" "lc < e"
      using IsExpired_True [of tx n] by (auto simp: After_def)
    let ?final = "snd (ExpireExpiredNodes_nodes lc ns (expired @ [?patch]) ?t3)"
    have "clock ?t1 \<le> clock ?t3" by (simp add: time_Now_mono)
    also have "\<dots> \<le> clock ?final" by (rule ExpireExpiredNodes_nodes_clock)
    finally have late: "e < clock ?final" using e(2) by simp
    from Cons.IH [of "expired @ [?patch]" ?t3] obtain new where
      new: "fst (ExpireExpiredNodes_nodes lc ns (expired @ [?patch]) ?t3) =
          (expired @ [?patch]) @ new"
      and each: "\<forall>p \<in> set new. \<exists>m \<in> set ns. \<exists>e.
        PeerChange_NodeID p = ID m \<and> KeyExpiry p = Expiry m \<and> Expiry m = Some e \<and> lc < e \<and>
        e < clock ?final"
      by blast
    have "\<forall>p \<in> set (?patch # new). \<exists>m \<in> set (n # ns). \<exists>e.
        PeerChange_NodeID p = ID m \<and> KeyExpiry p = Expiry m \<and> Expiry m = Some e \<and> lc < e \<and>
        e < clock ?final"
      using each e late by auto
    with new True show ?thesis
      unfolding ExpireExpiredNodes_nodes_Cons
      by (intro exI [of _ "?patch # new"]) simp
  next
    case False
    from Cons.IH [of expired ?t1] False show ?thesis
      unfolding ExpireExpiredNodes_nodes_Cons by auto
  qed
qed

lemma ExpireExpiredNodes_nodes_keep:
  "set expired \<subseteq> set (fst (ExpireExpiredNodes_nodes lc ns expired tx))"
  using ExpireExpiredNodes_nodes_patches [of lc ns expired tx] by auto

lemma ExpireExpiredNodes_nodes_complete:
  "n \<in> set ns \<Longrightarrow> Expiry n = Some e \<Longrightarrow> lc < e \<Longrightarrow> e < clock tx \<Longrightarrow>
   \<lparr>PeerChange_NodeID = ID n, KeyExpiry = Some e\<rparr> \<in>
     set (fst (ExpireExpiredNodes_nodes lc ns expired tx))"
proof (induction ns arbitrary: expired tx)
  case Nil
  then show ?case by simp
next
  case (Cons m ns)
  let ?t1 = "snd (IsExpired tx m)"
  let ?t3 = "snd (Updates_Expiry (snd (time_Now ?t1)) m (fst (time_Now ?t1)))"
  have c1: "e < clock ?t1"
    using Cons.prems(4) IsExpired_mono [of tx m] by simp
  have c3: "e < clock ?t3"
    using c1 time_Now_mono [of ?t1] by simp
  show ?case
  proof (cases "n = m")
    case True
    with Cons.prems have q: "fst (IsExpired tx m) \<and> After (Expiry m) lc"
      by (simp add: IsExpired_past After_def)
    have "\<lparr>PeerChange_NodeID = ID m, KeyExpiry = Expiry m\<rparr> \<in>
        set (expired @ [\<lparr>PeerChange_NodeID = ID m, KeyExpiry = Expiry m\<rparr>])"
      by simp
    with ExpireExpiredNodes_nodes_keep
    have "\<lparr>PeerChange_NodeID = ID m, KeyExpiry = Expiry m\<rparr> \<in>
        set (fst (ExpireExpiredNodes_nodes lc ns
              (expired @ [\<lparr>PeerChange_NodeID = ID m, KeyExpiry = Expiry m\<rparr>]) ?t3))"
      by blast
    with q True Cons.prems(2) show ?thesis
      unfolding ExpireExpiredNodes_nodes_Cons by simp
  next
    case False
    with Cons.prems(1) have "n \<in> set ns" by simp
    from Cons.IH [OF this Cons.prems(2,3) c1] Cons.IH [OF this Cons.prems(2,3) c3]
    show ?thesis
      unfolding ExpireExpiredNodes_nodes_Cons by simp
  qed
qed

lemma expiry_written_later:
  assumes "expiry_written expired tx" "nodes tx' = nodes tx" "clock tx \<le> clock tx'"
  shows "expiry_written expired tx'"
  using assms unfolding expiry_written_def
  by (fastforce split: option.splits)

lemma expiry_written_update:
  assumes w: "expiry_written expired tx"
    and n: "nodes tx' = map (\<lambda>r. if ID r = i then r\<lparr>Expiry := Some now\<rparr> else r) (nodes tx)"
    and c: "clock tx \<le> now" "clock tx' = now"
    and e: "e < now"
  shows "expiry_written (expired @ [\<lparr>PeerChange_NodeID = i, KeyExpiry = Some e\<rparr>]) tx'"
  unfolding expiry_written_def
proof (intro ballI impI)
  fix p r
  assume p: "p \<in> set (expired @ [\<lparr>PeerChange_NodeID = i, KeyExpiry = Some e\<rparr>])"
    and z: "PeerChange_NodeID p \<noteq> 0" and r: "r \<in> set (nodes tx')" and i: "ID r = PeerChange_NodeID p"
  from r n obtain r0 where r0: "r0 \<in> set (nodes tx)"
    and rr: "r = (if ID r0 = i then r0\<lparr>Expiry := Some now\<rparr> else r0)"
    by auto
  show "case (KeyExpiry p, Expiry r) of (Some e, Some t) \<Rightarrow> e < t \<and> t \<le> clock tx' | _ \<Rightarrow> False"
  proof (cases "p \<in> set expired")
    case True
    from rr i have "ID r0 = PeerChange_NodeID p" by (simp split: if_splits)
    with w True z r0 have
      old: "case (KeyExpiry p, Expiry r0) of (Some e, Some t) \<Rightarrow> e < t \<and> t \<le> clock tx | _ \<Rightarrow> False"
      unfolding expiry_written_def by blast
    then show ?thesis
      using rr c by (auto split: option.splits if_splits)
  next
    case False
    with p have "p = \<lparr>PeerChange_NodeID = i, KeyExpiry = Some e\<rparr>" by simp
    with rr i c e show ?thesis by (auto split: if_splits)
  qed
qed

lemma expiry_written_zero:
  assumes "expiry_written expired tx"
  shows "expiry_written (expired @ [\<lparr>PeerChange_NodeID = 0, KeyExpiry = k\<rparr>]) tx"
  using assms unfolding expiry_written_def by auto

lemma ExpireExpiredNodes_nodes_written:
  "faults tx = [] \<Longrightarrow> expiry_written expired tx \<Longrightarrow>
   expiry_written (fst (ExpireExpiredNodes_nodes lc ns expired tx))
     (snd (ExpireExpiredNodes_nodes lc ns expired tx))"
proof (induction ns arbitrary: expired tx)
  case Nil
  then show ?case by simp
next
  case (Cons n ns)
  let ?t1 = "snd (IsExpired tx n)"
  let ?now = "fst (time_Now ?t1)"
  let ?t2 = "snd (time_Now ?t1)"
  let ?t3 = "snd (Updates_Expiry ?t2 n ?now)"
  let ?patch = "\<lparr>PeerChange_NodeID = ID n, KeyExpiry = Expiry n\<rparr>"
  have f1: "faults ?t1 = []" and f3: "faults ?t3 = []"
    using Cons.prems(1) by simp_all
  have w1: "expiry_written expired ?t1"
    using Cons.prems(2) by (rule expiry_written_later) (simp_all add: IsExpired_mono)
  show ?case
  proof (cases "fst (IsExpired tx n) \<and> After (Expiry n) lc")
    case True
    then obtain e where e: "Expiry n = Some e" "e < clock ?t1"
      using IsExpired_True [of tx n] by auto
    have "expiry_written (expired @ [?patch]) ?t3"
    proof (cases "ID n = 0")
      case True
      have "expiry_written expired ?t3"
        using w1 by (rule expiry_written_later)
          (simp_all add: True Updates_Expiry_def time_Now_mono)
      then show ?thesis
        using True expiry_written_zero by simp
    next
      case False
      have "nodes ?t3 = map (\<lambda>r. if ID r = ID n then r\<lparr>Expiry := Some ?now\<rparr> else r) (nodes ?t1)"
        using f1 False by (simp add: Updates_Expiry_nodes_ok)
      from expiry_written_update [OF w1 this, of e] e time_Now_mono [of ?t1]
      show ?thesis by simp
    qed
    from Cons.IH [OF f3 this] True show ?thesis
      unfolding ExpireExpiredNodes_nodes_Cons by simp
  next
    case False
    from Cons.IH [OF f1 w1] False show ?thesis
      unfolding ExpireExpiredNodes_nodes_Cons by auto
  qed
qed

lemma ListNodes_eq:
  "ListNodes tx =
     (if fst (gorm_op tx) then Inl ErrStorage
      else Inr (map (preload (snd (gorm_op tx))) (nodes tx)), snd (gorm_op tx))"
  by (simp add: ListNodes_def split_beta)

lemma ExpireExpiredNodes_failed:
  "fst (gorm_op (snd (time_Now tx))) \<Longrightarrow>
   ExpireExpiredNodes tx lc =
     ((time_Unix_0_0, StateUpdate_zero, False), snd (gorm_op (snd (time_Now tx))))"
  by (simp add: ExpireExpiredNodes_def ListNodes_eq split_beta)

lemma ExpireExpiredNodes_listed:
  assumes "\<not> fst (gorm_op (snd (time_Now tx)))"
  shows "ExpireExpiredNodes tx lc =
     (let tx2 = snd (gorm_op (snd (time_Now tx)));
          run = ExpireExpiredNodes_nodes lc (map (preload tx2) (nodes tx)) [] tx2
      in ((fst (time_Now tx),
           if fst run \<noteq> []
           then StateUpdate_zero\<lparr>Type := StatePeerChangedPatch, ChangePatches := fst run\<rparr>
           else StateUpdate_zero,
           fst run \<noteq> []), snd run))"
  using assms by (simp add: ExpireExpiredNodes_def ListNodes_eq split_beta Let_def)

lemma ExpireExpiredNodes_patches:
  "ChangePatches (fst (snd (fst (ExpireExpiredNodes tx lc)))) =
     (if fst (gorm_op (snd (time_Now tx))) then []
      else fst (ExpireExpiredNodes_nodes lc
             (map (preload (snd (gorm_op (snd (time_Now tx))))) (nodes tx)) []
             (snd (gorm_op (snd (time_Now tx))))))"
  by (simp add: ExpireExpiredNodes_failed ExpireExpiredNodes_listed Let_def StateUpdate_zero_def)

lemma ExpireExpiredNodes_state:
  "\<not> fst (gorm_op (snd (time_Now tx))) \<Longrightarrow>
   snd (ExpireExpiredNodes tx lc) =
     snd (ExpireExpiredNodes_nodes lc
             (map (preload (snd (gorm_op (snd (time_Now tx))))) (nodes tx)) []
             (snd (gorm_op (snd (time_Now tx)))))"
  by (simp add: ExpireExpiredNodes_listed Let_def)

lemma ExpireExpiredNodes_sound:
  assumes p: "p \<in> set (ChangePatches (fst (snd (fst (ExpireExpiredNodes tx lc)))))"
  shows "\<exists>n \<in> set (nodes tx). \<exists>e.
      PeerChange_NodeID p = ID n \<and> KeyExpiry p = Expiry n \<and> Expiry n = Some e \<and> lc < e \<and>
      e < clock (snd (ExpireExpiredNodes tx lc))"
proof -
  let ?t2 = "snd (gorm_op (snd (time_Now tx)))"
  let ?run = "ExpireExpiredNodes_nodes lc (map (preload ?t2) (nodes tx)) [] ?t2"
  from p have ok: "\<not> fst (gorm_op (snd (time_Now tx)))" and p': "p \<in> set (fst ?run)"
    by (simp_all add: ExpireExpiredNodes_patches split: if_splits)
  from ExpireExpiredNodes_nodes_patches [of lc "map (preload ?t2) (nodes tx)" "[]" ?t2] p'
  have "\<exists>m \<in> set (map (preload ?t2) (nodes tx)). \<exists>e.
      PeerChange_NodeID p = ID m \<and> KeyExpiry p = Expiry m \<and> Expiry m = Some e \<and> lc < e \<and>
      e < clock (snd ?run)"
    by simp
  then show ?thesis
    using ok by (auto simp: ExpireExpiredNodes_state)
qed

lemma ExpireExpiredNodes_complete:
  assumes ok: "\<not> fst (gorm_op (snd (time_Now tx)))"
    and n: "n \<in> set (nodes tx)" "Expiry n = Some e" "lc < e" "e < fst (time_Now tx)"
  shows "\<lparr>PeerChange_NodeID = ID n, KeyExpiry = Some e\<rparr> \<in>
     set (ChangePatches (fst (snd (fst (ExpireExpiredNodes tx lc)))))"
proof -
  let ?t2 = "snd (gorm_op (snd (time_Now tx)))"
  have "preload ?t2 n \<in> set (map (preload ?t2) (nodes tx))"
    using n(1) by simp
  from ExpireExpiredNodes_nodes_complete [OF this, of e lc ?t2 "[]"] n(2-4)
  show ?thesis
    using ok by (simp add: ExpireExpiredNodes_patches)
qed

lemma ExpireExpiredNodes_written:
  assumes "faults tx = []"
  shows "expiry_written (ChangePatches (fst (snd (fst (ExpireExpiredNodes tx lc)))))
     (snd (ExpireExpiredNodes tx lc))"
proof -
  let ?t2 = "snd (gorm_op (snd (time_Now tx)))"
  have f: "faults ?t2 = []" and ok: "\<not> fst (gorm_op (snd (time_Now tx)))"
    using assms by simp_all
  have "expiry_written [] ?t2" by (simp add: expiry_written_def)
  from ExpireExpiredNodes_nodes_written [OF f this]
  show ?thesis
    using ok by (simp add: ExpireExpiredNodes_patches ExpireExpiredNodes_state)
qed

lemma time_Now_cong:
  "clock tx = clock tx' \<Longrightarrow> ticks tx = ticks tx' \<Longrightarrow>
   fst (time_Now tx) = fst (time_Now tx') \<and> ticks (snd (time_Now tx)) = ticks (snd (time_Now tx'))"
  by (simp add: time_Now_def split: list.splits)

lemma IsExpired_cong:
  "clock tx = clock tx' \<Longrightarrow> ticks tx = ticks tx' \<Longrightarrow>
   fst (IsExpired tx n) = fst (IsExpired tx' n)
   \<and> clock (snd (IsExpired tx n)) = clock (snd (IsExpired tx' n))
   \<and> ticks (snd (IsExpired tx n)) = ticks (snd (IsExpired tx' n))"
  by (simp add: IsExpired_def time_Now_def split_beta split: option.splits list.splits)

lemma newly_expired_cong:
  "clock tx = clock tx' \<Longrightarrow> ticks tx = ticks tx' \<Longrightarrow>
   newly_expired lc ns tx = newly_expired lc ns tx'"
proof (induction ns arbitrary: tx tx')
  case Nil
  then show ?case by simp
next
  case (Cons n ns)
  from IsExpired_cong [OF Cons.prems, of n]
  have a: "fst (IsExpired tx n) = fst (IsExpired tx' n)"
    and c: "clock (snd (IsExpired tx n)) = clock (snd (IsExpired tx' n))"
    and b: "ticks (snd (IsExpired tx n)) = ticks (snd (IsExpired tx' n))"
    by simp_all
  from time_Now_cong [OF c b]
  have a': "fst (time_Now (snd (IsExpired tx n))) = fst (time_Now (snd (IsExpired tx' n)))"
    and b': "ticks (snd (time_Now (snd (IsExpired tx n)))) =
        ticks (snd (time_Now (snd (IsExpired tx' n))))"
    by simp_all
  from a' have c': "clock (snd (time_Now (snd (IsExpired tx n)))) =
        clock (snd (time_Now (snd (IsExpired tx' n))))"
    by simp
  from Cons.IH [OF c b] Cons.IH [OF c' b'] a a' show ?case
    by simp
qed

lemma IsExpired_preload [simp]: "IsExpired tx (preload t n) = IsExpired tx n"
  by (simp add: IsExpired_def)

lemma newly_expired_preload [simp]:
  "newly_expired lc (map (preload t) ns) tx = newly_expired lc ns tx"
  by (induction ns arbitrary: tx) simp_all

lemma Updates_Expiry_writes:
  "nodes (snd (Updates_Expiry tx n t)) =
     (if ID n = 0 \<or> (faults tx \<noteq> [] \<and> hd (faults tx)) then nodes tx
      else map (\<lambda>r. if ID r = ID n then r\<lparr>Expiry := Some t\<rparr> else r) (nodes tx))"
  "faults (snd (Updates_Expiry tx n t)) = (if ID n = 0 then faults tx else tl (faults tx))"
  by (simp_all add: Updates_Expiry_def Update_where_id_def gorm_op_def split_beta
      split: list.splits)

lemma ExpireExpiredNodes_nodes_exact:
  "fst (ExpireExpiredNodes_nodes lc ns expired tx) =
     expired @ map (\<lambda>(i, e, now). \<lparr>PeerChange_NodeID = i, KeyExpiry = e\<rparr>) (newly_expired lc ns tx)
   \<and> nodes (snd (ExpireExpiredNodes_nodes lc ns expired tx)) =
       expiry_writes (faults tx) (newly_expired lc ns tx) (nodes tx)"
proof (induction ns arbitrary: expired tx)
  case Nil
  then show ?case by simp
next
  case (Cons n ns)
  let ?t1 = "snd (IsExpired tx n)"
  let ?now = "fst (time_Now ?t1)"
  let ?t2 = "snd (time_Now ?t1)"
  let ?t3 = "snd (Updates_Expiry ?t2 n ?now)"
  show ?case
  proof (cases "fst (IsExpired tx n) \<and> After (Expiry n) lc")
    case False
    have l: "ExpireExpiredNodes_nodes lc (n # ns) expired tx =
        ExpireExpiredNodes_nodes lc ns expired ?t1"
      using False by (auto simp add: ExpireExpiredNodes_nodes_Cons simp del: ExpireExpiredNodes_nodes.simps)
    have w: "newly_expired lc (n # ns) tx = newly_expired lc ns ?t1"
      using False by auto
    show ?thesis
      unfolding l w using Cons.IH [of expired ?t1] by simp
  next
    case True
    have l: "ExpireExpiredNodes_nodes lc (n # ns) expired tx =
        ExpireExpiredNodes_nodes lc ns
          (expired @ [\<lparr>PeerChange_NodeID = ID n, KeyExpiry = Expiry n\<rparr>]) ?t3"
      using True by (simp add: ExpireExpiredNodes_nodes_Cons del: ExpireExpiredNodes_nodes.simps)
    have w: "newly_expired lc (n # ns) tx = (ID n, Expiry n, ?now) # newly_expired lc ns ?t2"
      using True by simp
    have e: "newly_expired lc ns ?t3 = newly_expired lc ns ?t2"
      by (rule newly_expired_cong) simp_all
    have f: "faults ?t3 = (if ID n = 0 then faults tx else tl (faults tx))"
      by (simp add: Updates_Expiry_writes)
    have r: "nodes ?t3 =
        (if ID n = 0 \<or> (faults tx \<noteq> [] \<and> hd (faults tx)) then nodes tx
         else map (\<lambda>r. if ID r = ID n then r\<lparr>Expiry := Some ?now\<rparr> else r) (nodes tx))"
      by (simp add: Updates_Expiry_writes)
    from Cons.IH [of "expired @ [\<lparr>PeerChange_NodeID = ID n, KeyExpiry = Expiry n\<rparr>]" ?t3]
    have "fst (ExpireExpiredNodes_nodes lc (n # ns) expired tx) =
        expired @ map (\<lambda>(i, e, now). \<lparr>PeerChange_NodeID = i, KeyExpiry = e\<rparr>)
          (newly_expired lc (n # ns) tx)"
      and "nodes (snd (ExpireExpiredNodes_nodes lc (n # ns) expired tx)) =
        expiry_writes (faults ?t3) (newly_expired lc ns ?t2) (nodes ?t3)"
      unfolding l w e by simp_all
    moreover have "expiry_writes (faults ?t3) (newly_expired lc ns ?t2) (nodes ?t3) =
        expiry_writes (faults tx) (newly_expired lc (n # ns) tx) (nodes tx)"
      unfolding w f r by simp
    ultimately show ?thesis by simp
  qed
qed

lemma newly_expired_bounds:
  "w \<in> set (newly_expired lc ns tx) \<Longrightarrow>
   \<exists>n \<in> set ns. \<exists>e.
     fst w = ID n \<and> fst (snd w) = Some e \<and> Expiry n = Some e \<and> lc < e \<and> e < snd (snd w)
     \<and> clock tx \<le> snd (snd w)"
proof (induction ns arbitrary: tx)
  case Nil
  then show ?case by simp
next
  case (Cons n ns)
  let ?t1 = "snd (IsExpired tx n)"
  let ?now = "fst (time_Now ?t1)"
  let ?t2 = "snd (time_Now ?t1)"
  have a: "clock tx \<le> clock ?t1" by (rule IsExpired_mono)
  have b: "clock ?t1 \<le> ?now" by (rule time_Now_mono)
  have c: "clock ?t2 = ?now" by simp
  show ?case
  proof (cases "fst (IsExpired tx n) \<and> After (Expiry n) lc")
    case False
    then have "newly_expired lc (n # ns) tx = newly_expired lc ns ?t1"
      by auto
    with Cons.prems have "w \<in> set (newly_expired lc ns ?t1)"
      by simp
    from Cons.IH [OF this] obtain m e where "m \<in> set ns" "fst w = ID m" "fst (snd w) = Some e"
      "Expiry m = Some e" "lc < e" "e < snd (snd w)" "clock ?t1 \<le> snd (snd w)"
      by blast
    with a show ?thesis
      by (intro bexI [of _ m] exI [of _ e]) simp_all
  next
    case True
    then have q: "fst (IsExpired tx n)" and r: "After (Expiry n) lc"
      by simp_all
    from True have "newly_expired lc (n # ns) tx = (ID n, Expiry n, ?now) # newly_expired lc ns ?t2"
      by simp
    with Cons.prems
    consider "w = (ID n, Expiry n, ?now)" | "w \<in> set (newly_expired lc ns ?t2)"
      by auto
    then show ?thesis
    proof cases
      case 1
      from IsExpired_True [OF q] obtain e where e: "Expiry n = Some e" "e < clock ?t1"
        by blast
      from r e have "lc < e" by (simp add: After_def)
      with 1 e a b show ?thesis
        by (intro bexI [of _ n] exI [of _ e]) simp_all
    next
      case 2
      from Cons.IH [OF 2] obtain m e where "m \<in> set ns" "fst w = ID m" "fst (snd w) = Some e"
        "Expiry m = Some e" "lc < e" "e < snd (snd w)" "clock ?t2 \<le> snd (snd w)"
        by blast
      with a b c show ?thesis
        by (intro bexI [of _ m] exI [of _ e]) simp_all
    qed
  qed
qed

lemma newly_expired_clock:
  "w \<in> set (newly_expired lc ns tx) \<Longrightarrow>
   snd (snd w) \<le> clock (snd (ExpireExpiredNodes_nodes lc ns expired tx))"
proof (induction ns arbitrary: tx expired)
  case Nil
  then show ?case by simp
next
  case (Cons n ns)
  let ?t1 = "snd (IsExpired tx n)"
  let ?now = "fst (time_Now ?t1)"
  let ?t2 = "snd (time_Now ?t1)"
  let ?t3 = "snd (Updates_Expiry ?t2 n ?now)"
  show ?case
  proof (cases "fst (IsExpired tx n) \<and> After (Expiry n) lc")
    case False
    have l: "ExpireExpiredNodes_nodes lc (n # ns) expired tx =
        ExpireExpiredNodes_nodes lc ns expired ?t1"
      using False by (auto simp add: ExpireExpiredNodes_nodes_Cons
          simp del: ExpireExpiredNodes_nodes.simps)
    from False have "newly_expired lc (n # ns) tx = newly_expired lc ns ?t1"
      by auto
    with Cons.prems have "w \<in> set (newly_expired lc ns ?t1)"
      by simp
    from Cons.IH [OF this] show ?thesis
      unfolding l .
  next
    case True
    let ?ex = "expired @ [\<lparr>PeerChange_NodeID = ID n, KeyExpiry = Expiry n\<rparr>]"
    have l: "ExpireExpiredNodes_nodes lc (n # ns) expired tx =
        ExpireExpiredNodes_nodes lc ns ?ex ?t3"
      using True by (simp add: ExpireExpiredNodes_nodes_Cons
          del: ExpireExpiredNodes_nodes.simps)
    have e: "newly_expired lc ns ?t3 = newly_expired lc ns ?t2"
      by (rule newly_expired_cong) simp_all
    from True have "newly_expired lc (n # ns) tx = (ID n, Expiry n, ?now) # newly_expired lc ns ?t2"
      by simp
    with Cons.prems
    consider "w = (ID n, Expiry n, ?now)" | "w \<in> set (newly_expired lc ns ?t3)"
      unfolding e by auto
    then show ?thesis
    proof cases
      case 1
      have "clock ?t3 \<le> clock (snd (ExpireExpiredNodes_nodes lc ns ?ex ?t3))"
        by (rule ExpireExpiredNodes_nodes_clock)
      with 1 show ?thesis
        unfolding l by simp
    next
      case 2
      from Cons.IH [OF 2] show ?thesis
        unfolding l .
    qed
  qed
qed

lemma gorm_op_faults_tl: "faults (snd (gorm_op tx)) = tl (faults tx)"
  by (simp add: gorm_op_def split: list.splits)

lemma ExpireExpiredNodes_nodes_frame [simp]:
  "routes (snd (ExpireExpiredNodes_nodes lc ns expired tx)) = routes tx"
  "users (snd (ExpireExpiredNodes_nodes lc ns expired tx)) = users tx"
proof (induction ns arbitrary: expired tx)
  case Nil
  {
    case 1
    show ?case by simp
  next
    case 2
    show ?case by simp
  }
next
  case (Cons n ns)
  {
    case 1
    show ?case
      unfolding ExpireExpiredNodes_nodes_Cons by (simp add: Cons.IH)
  next
    case 2
    show ?case
      unfolding ExpireExpiredNodes_nodes_Cons by (simp add: Cons.IH)
  }
qed

lemma ExpireExpiredNodes_exact:
  assumes ok: "\<not> fst (gorm_op (snd (time_Now tx)))"
  shows "ChangePatches (fst (snd (fst (ExpireExpiredNodes tx lc)))) =
      map (\<lambda>(i, e, now). \<lparr>PeerChange_NodeID = i, KeyExpiry = e\<rparr>)
        (newly_expired lc (nodes tx) (snd (time_Now tx)))"
    and "nodes (snd (ExpireExpiredNodes tx lc)) =
      expiry_writes (tl (faults tx)) (newly_expired lc (nodes tx) (snd (time_Now tx))) (nodes tx)"
    and "routes (snd (ExpireExpiredNodes tx lc)) = routes tx"
    and "users (snd (ExpireExpiredNodes tx lc)) = users tx"
proof -
  let ?t2 = "snd (gorm_op (snd (time_Now tx)))"
  have e: "newly_expired lc (map (preload ?t2) (nodes tx)) ?t2 =
      newly_expired lc (nodes tx) (snd (time_Now tx))"
    unfolding newly_expired_preload by (rule newly_expired_cong) simp_all
  have f: "faults ?t2 = tl (faults tx)"
    by (simp add: gorm_op_faults_tl)
  note x = ExpireExpiredNodes_nodes_exact [of lc "map (preload ?t2) (nodes tx)" "[]" ?t2,
      unfolded e f]
  from x ok show "ChangePatches (fst (snd (fst (ExpireExpiredNodes tx lc)))) =
      map (\<lambda>(i, e, now). \<lparr>PeerChange_NodeID = i, KeyExpiry = e\<rparr>)
        (newly_expired lc (nodes tx) (snd (time_Now tx)))"
    by (simp add: ExpireExpiredNodes_patches)
  from x ok show "nodes (snd (ExpireExpiredNodes tx lc)) =
      expiry_writes (tl (faults tx)) (newly_expired lc (nodes tx) (snd (time_Now tx))) (nodes tx)"
    by (simp add: ExpireExpiredNodes_state)
  from ok show "routes (snd (ExpireExpiredNodes tx lc)) = routes tx"
    by (simp add: ExpireExpiredNodes_state)
  from ok show "users (snd (ExpireExpiredNodes tx lc)) = users tx"
    by (simp add: ExpireExpiredNodes_state)
qed

lemma ExpireExpiredNodes_readings:
  assumes ok: "\<not> fst (gorm_op (snd (time_Now tx)))"
    and w: "w \<in> set (newly_expired lc (nodes tx) (snd (time_Now tx)))"
  shows "\<exists>n \<in> set (nodes tx). \<exists>e.
      fst w = ID n \<and> fst (snd w) = Some e \<and> Expiry n = Some e \<and> lc < e \<and> e < snd (snd w)
      \<and> fst (time_Now tx) \<le> snd (snd w)
      \<and> snd (snd w) \<le> clock (snd (ExpireExpiredNodes tx lc))"
proof -
  let ?t2 = "snd (gorm_op (snd (time_Now tx)))"
  have e: "newly_expired lc (map (preload ?t2) (nodes tx)) ?t2 =
      newly_expired lc (nodes tx) (snd (time_Now tx))"
    unfolding newly_expired_preload by (rule newly_expired_cong) simp_all
  from w have "w \<in> set (newly_expired lc (map (preload ?t2) (nodes tx)) ?t2)"
    unfolding e .
  from newly_expired_clock [OF this, of "[]"] ok
  have c: "snd (snd w) \<le> clock (snd (ExpireExpiredNodes tx lc))"
    by (simp add: ExpireExpiredNodes_state)
  from newly_expired_bounds [OF w] obtain n e' where "n \<in> set (nodes tx)" "fst w = ID n"
    "fst (snd w) = Some e'" "Expiry n = Some e'" "lc < e'" "e' < snd (snd w)"
    "clock (snd (time_Now tx)) \<le> snd (snd w)"
    by blast
  with c show ?thesis
    by (intro bexI [of _ n] exI [of _ e']) simp_all
qed

text \<open>
  C6, as the code has it. \<^verbatim>\<open>ExpireExpiredNodes\<close> reads the clock first. When the listing
  fails it returns \<^verbatim>\<open>time.Unix(0, 0)\<close> and no update, and the tables are as they were.
  Otherwise the cursor it returns is that first reading; the batch holds, in the order of
  the listing, one patch for each node that is expired when it is tested and whose expiry
  is after \<open>lastCheck\<close>, and no other patch; the patch carries the identifier of the node
  and the expiry the node was listed with, which is after \<open>lastCheck\<close> and before the
  \<^verbatim>\<open>now\<close> read for the write: the old value, not the one written. The node table
  afterwards is the one before with, for each of those nodes in turn, the expiry of the
  rows of its identifier set to its \<^verbatim>\<open>now\<close>, unless that write fails: the node has no
  identifier, or the store fails the statement. No other table changes. A
  \<^verbatim>\<open>PeerChangedPatch\<close> event is returned exactly when the batch is not empty.
\<close>

theorem ExpireExpiredNodes_result:
  assumes run: "ExpireExpiredNodes tx lastCheck = ((cursor, update, ok), tx')"
  shows
    "(if fst (gorm_op (snd (time_Now tx)))
      then cursor = time_Unix_0_0 \<and> update = StateUpdate_zero \<and> \<not> ok
        \<and> nodes tx' = nodes tx \<and> routes tx' = routes tx \<and> users tx' = users tx
      else cursor = fst (time_Now tx)
        \<and> ChangePatches update =
            map (\<lambda>(i, e, now). \<lparr>PeerChange_NodeID = i, KeyExpiry = e\<rparr>)
              (newly_expired lastCheck (nodes tx) (snd (time_Now tx)))
        \<and> nodes tx' =
            expiry_writes (tl (faults tx))
              (newly_expired lastCheck (nodes tx) (snd (time_Now tx))) (nodes tx)
        \<and> routes tx' = routes tx \<and> users tx' = users tx
        \<and> (\<forall>(i, e, now) \<in> set (newly_expired lastCheck (nodes tx) (snd (time_Now tx))).
              \<exists>n \<in> set (nodes tx). \<exists>old.
                i = ID n \<and> e = Some old \<and> Expiry n = Some old \<and> lastCheck < old \<and> old < now
                \<and> cursor \<le> now \<and> now \<le> clock tx')
        \<and> ok = (ChangePatches update \<noteq> [])
        \<and> update =
            (if ok then StateUpdate_zero\<lparr>Type := StatePeerChangedPatch,
                          ChangePatches := ChangePatches update\<rparr>
             else StateUpdate_zero)
        \<and> (\<forall>n \<in> set (nodes tx). \<forall>e. Expiry n = Some e \<and> lastCheck < e \<and> e < cursor \<longrightarrow>
              \<lparr>PeerChange_NodeID = ID n, KeyExpiry = Some e\<rparr> \<in> set (ChangePatches update)))
     \<and> (\<forall>p \<in> set (ChangePatches update). \<exists>n \<in> set (nodes tx). \<exists>e.
          PeerChange_NodeID p = ID n \<and> KeyExpiry p = Expiry n \<and> Expiry n = Some e
          \<and> lastCheck < e \<and> e < clock tx')
     \<and> (faults tx = [] \<longrightarrow>
          (\<forall>p \<in> set (ChangePatches update). PeerChange_NodeID p \<noteq> 0 \<longrightarrow>
             (\<forall>r \<in> set (nodes tx'). ID r = PeerChange_NodeID p \<longrightarrow>
                (\<exists>e t. KeyExpiry p = Some e \<and> Expiry r = Some t \<and> e < t \<and> t \<le> clock tx'))))"
proof -
  from run have u: "update = fst (snd (fst (ExpireExpiredNodes tx lastCheck)))"
    and t: "tx' = snd (ExpireExpiredNodes tx lastCheck)"
    by simp_all
  have first: "if fst (gorm_op (snd (time_Now tx)))
      then cursor = time_Unix_0_0 \<and> update = StateUpdate_zero \<and> \<not> ok
      else cursor = fst (time_Now tx)
        \<and> ok = (ChangePatches update \<noteq> [])
        \<and> update =
            (if ok then StateUpdate_zero\<lparr>Type := StatePeerChangedPatch,
                          ChangePatches := ChangePatches update\<rparr>
             else StateUpdate_zero)"
    using run
    by (auto simp: ExpireExpiredNodes_failed ExpireExpiredNodes_listed Let_def
        StateUpdate_zero_def split: if_splits)
  have failed: "fst (gorm_op (snd (time_Now tx))) \<Longrightarrow>
      nodes tx' = nodes tx \<and> routes tx' = routes tx \<and> users tx' = users tx"
    unfolding t by (simp add: ExpireExpiredNodes_failed)
  have exact: "\<not> fst (gorm_op (snd (time_Now tx))) \<Longrightarrow>
      ChangePatches update =
        map (\<lambda>(i, e, now). \<lparr>PeerChange_NodeID = i, KeyExpiry = e\<rparr>)
          (newly_expired lastCheck (nodes tx) (snd (time_Now tx)))
      \<and> nodes tx' =
          expiry_writes (tl (faults tx))
            (newly_expired lastCheck (nodes tx) (snd (time_Now tx))) (nodes tx)
      \<and> routes tx' = routes tx \<and> users tx' = users tx"
    unfolding u t by (simp add: ExpireExpiredNodes_exact)
  have readings: "\<not> fst (gorm_op (snd (time_Now tx))) \<Longrightarrow>
      \<forall>(i, e, now) \<in> set (newly_expired lastCheck (nodes tx) (snd (time_Now tx))).
        \<exists>n \<in> set (nodes tx). \<exists>old.
          i = ID n \<and> e = Some old \<and> Expiry n = Some old \<and> lastCheck < old \<and> old < now
          \<and> cursor \<le> now \<and> now \<le> clock tx'"
  proof -
    assume listed: "\<not> fst (gorm_op (snd (time_Now tx)))"
    with first have c: "cursor = fst (time_Now tx)"
      by simp
    show ?thesis
    proof (intro ballI)
      fix w
      assume "w \<in> set (newly_expired lastCheck (nodes tx) (snd (time_Now tx)))"
      from ExpireExpiredNodes_readings [OF listed this]
      show "case w of (i, e, now) \<Rightarrow>
        \<exists>n \<in> set (nodes tx). \<exists>old.
          i = ID n \<and> e = Some old \<and> Expiry n = Some old \<and> lastCheck < old \<and> old < now
          \<and> cursor \<le> now \<and> now \<le> clock tx'"
        unfolding c t by (simp add: split_beta)
    qed
  qed
  have complete: "\<not> fst (gorm_op (snd (time_Now tx))) \<Longrightarrow>
      \<forall>n \<in> set (nodes tx). \<forall>e. Expiry n = Some e \<and> lastCheck < e \<and> e < cursor \<longrightarrow>
        \<lparr>PeerChange_NodeID = ID n, KeyExpiry = Some e\<rparr> \<in> set (ChangePatches update)"
    using first ExpireExpiredNodes_complete [of tx _ _ lastCheck] unfolding u
    by (auto split: if_splits)
  have sound: "\<forall>p \<in> set (ChangePatches update). \<exists>n \<in> set (nodes tx). \<exists>e.
          PeerChange_NodeID p = ID n \<and> KeyExpiry p = Expiry n \<and> Expiry n = Some e
          \<and> lastCheck < e \<and> e < clock tx'"
    unfolding u t by (intro ballI ExpireExpiredNodes_sound)
  have written: "faults tx = [] \<Longrightarrow>
          (\<forall>p \<in> set (ChangePatches update). PeerChange_NodeID p \<noteq> 0 \<longrightarrow>
             (\<forall>r \<in> set (nodes tx'). ID r = PeerChange_NodeID p \<longrightarrow>
                (\<exists>e t. KeyExpiry p = Some e \<and> Expiry r = Some t \<and> e < t \<and> t \<le> clock tx')))"
    using ExpireExpiredNodes_written [of tx lastCheck] unfolding u t expiry_written_def
    by (fastforce split: option.splits)
  show ?thesis
  proof (cases "fst (gorm_op (snd (time_Now tx)))")
    case True
    from first have "cursor = time_Unix_0_0 \<and> update = StateUpdate_zero \<and> \<not> ok"
      unfolding if_P [OF True] .
    with failed [OF True] sound written show ?thesis
      unfolding if_P [OF True] by blast
  next
    case False
    from first have "cursor = fst (time_Now tx)
        \<and> ok = (ChangePatches update \<noteq> [])
        \<and> update =
            (if ok then StateUpdate_zero\<lparr>Type := StatePeerChangedPatch,
                          ChangePatches := ChangePatches update\<rparr>
             else StateUpdate_zero)"
      unfolding if_not_P [OF False] .
    with exact [OF False] readings [OF False] complete [OF False] sound written show ?thesis
      unfolding if_not_P [OF False] by blast
  qed
qed

lemmas ExpireExpiredNodes_eval =
  ExpireExpiredNodes_def ListNodes_eq time_Now_def gorm_op_def IsExpired_def After_def
  Updates_Expiry_def Update_where_id_def preload_def split_beta Let_def
  expiring_def State_zero_def StateUpdate_zero_def laptop_def Node_zero_def

lemma expiring_first:
  "ExpireExpiredNodes expiring 0 =
     ((10, StateUpdate_zero\<lparr>Type := StatePeerChangedPatch,
             ChangePatches := [\<lparr>PeerChange_NodeID = 1, KeyExpiry = Some 5\<rparr>]\<rparr>, True),
      expiring\<lparr>nodes := [laptop\<lparr>Expiry := Some 10\<rparr>], ticks := [1]\<rparr>)"
  by (simp add: ExpireExpiredNodes_eval)

lemma expiring_newly_expired:
  "newly_expired 0 (nodes expiring) (snd (time_Now expiring)) = [(1, Some 5, 10)]"
  by (simp add: time_Now_def IsExpired_def After_def split_beta expiring_def State_zero_def
      laptop_def Node_zero_def)

theorem ExpireExpiredNodes_result_witness:
  "\<not> fst (gorm_op (snd (time_Now expiring)))
   \<and> newly_expired 0 (nodes expiring) (snd (time_Now expiring)) = [(1, Some 5, 10)]
   \<and> fst (fst (ExpireExpiredNodes expiring 0)) = 10
   \<and> ChangePatches (fst (snd (fst (ExpireExpiredNodes expiring 0)))) =
       [\<lparr>PeerChange_NodeID = 1, KeyExpiry = Some 5\<rparr>]
   \<and> map Expiry (nodes (snd (ExpireExpiredNodes expiring 0))) = [Some 10]
   \<and> snd (snd (fst (ExpireExpiredNodes expiring 0)))"
proof -
  obtain c u ok t1 where run: "ExpireExpiredNodes expiring 0 = ((c, u, ok), t1)"
    by (metis prod.exhaust)
  note res = ExpireExpiredNodes_result [OF run]
  have listed: "\<not> fst (gorm_op (snd (time_Now expiring)))"
    and now: "fst (time_Now expiring) = 10"
    and f: "tl (faults expiring) = []"
    and n: "nodes expiring = [laptop\<lparr>Expiry := Some 5\<rparr>]"
    and i: "ID (laptop\<lparr>Expiry := Some 5\<rparr>) = 1"
    by (simp_all add: time_Now_def gorm_op_def expiring_def State_zero_def laptop_def
        Node_zero_def)
  note w = expiring_newly_expired
  from res listed have c: "c = fst (time_Now expiring)"
    and p: "ChangePatches u = map (\<lambda>(i, e, now). \<lparr>PeerChange_NodeID = i, KeyExpiry = e\<rparr>)
        (newly_expired 0 (nodes expiring) (snd (time_Now expiring)))"
    and r: "nodes t1 = expiry_writes (tl (faults expiring))
        (newly_expired 0 (nodes expiring) (snd (time_Now expiring))) (nodes expiring)"
    and k: "ok = (ChangePatches u \<noteq> [])"
    by simp_all
  from p have p': "ChangePatches u = [\<lparr>PeerChange_NodeID = 1, KeyExpiry = Some 5\<rparr>]"
    unfolding w by simp
  from r have r': "map Expiry (nodes t1) = [Some 10]"
    unfolding w unfolding f n by (simp add: i)
  from k p' have k': "ok"
    by simp
  from listed w c now p' r' k' run show ?thesis
    by simp
qed

text \<open>
  C6 as stated fails: for the node that expired at 5, swept at clock 10 with cursor 0,
  the patch carries 5, the expiry read from the store, while the row gets the new
  expiry 10.
\<close>

theorem ExpireExpiredNodes_new_expiry_counterexample:
  "ChangePatches (fst (snd (fst (ExpireExpiredNodes expiring 0)))) =
     [\<lparr>PeerChange_NodeID = 1, KeyExpiry = Some 5\<rparr>]
   \<and> map ID (nodes (snd (ExpireExpiredNodes expiring 0))) = [1]
   \<and> map Expiry (nodes (snd (ExpireExpiredNodes expiring 0))) = [Some 10]"
  by (simp add: expiring_first laptop_def Node_zero_def)

subsection \<open>The expiry sweep run twice\<close>

lemma due_later: "due lc tx r \<Longrightarrow> clock tx \<le> clock tx' \<Longrightarrow> due lc tx' r"
  by (auto simp: due_def split: option.splits)

lemma due_written: "lc < t \<Longrightarrow> t \<le> clock tx \<Longrightarrow> due lc tx (r\<lparr>Expiry := Some t\<rparr>)"
  by (simp add: due_def)

text \<open>A step of the table that keeps identifiers and only writes expiries that are due.\<close>

lemma due_step:
  assumes row: "\<exists>r \<in> set (nodes tx). ID r = i \<and> ((b \<and> Expiry r = x) \<or> due lc tx r)"
    and step: "nodes tx' = nodes tx \<or>
       nodes tx' = map (\<lambda>r. if ID r = j then r\<lparr>Expiry := Some now\<rparr> else r) (nodes tx)"
    and c: "clock tx \<le> clock tx'" "lc < now" "now \<le> clock tx'"
  shows "\<exists>r \<in> set (nodes tx'). ID r = i \<and> ((b \<and> Expiry r = x) \<or> due lc tx' r)"
proof -
  from row obtain r where r: "r \<in> set (nodes tx)" "ID r = i"
    "(b \<and> Expiry r = x) \<or> due lc tx r"
    by blast
  from r(3) c(1) have keep: "(b \<and> Expiry r = x) \<or> due lc tx' r"
    by (auto intro: due_later)
  from step show ?thesis
  proof
    assume "nodes tx' = nodes tx"
    with r keep show ?thesis by auto
  next
    assume m: "nodes tx' = map (\<lambda>r. if ID r = j then r\<lparr>Expiry := Some now\<rparr> else r) (nodes tx)"
    show ?thesis
    proof (cases "ID r = j")
      case True
      with r(1) m have "r\<lparr>Expiry := Some now\<rparr> \<in> set (nodes tx')" by force
      moreover have "due lc tx' (r\<lparr>Expiry := Some now\<rparr>)"
        using c(2,3) by (rule due_written)
      ultimately show ?thesis
        using r(2) by (intro bexI [of _ "r\<lparr>Expiry := Some now\<rparr>"]) simp_all
    next
      case False
      with r(1) m have "r \<in> set (nodes tx')" by force
      with r(2) keep show ?thesis by auto
    qed
  qed
qed

lemma ExpireExpiredNodes_nodes_due:
  "\<forall>n \<in> set ns. \<exists>r \<in> set (nodes tx). ID r = ID n \<and> (Expiry r = Expiry n \<or> due lc tx r) \<Longrightarrow>
   \<forall>p \<in> set expired. \<exists>r \<in> set (nodes tx). ID r = PeerChange_NodeID p \<and> due lc tx r \<Longrightarrow>
   \<forall>p \<in> set (fst (ExpireExpiredNodes_nodes lc ns expired tx)).
     \<exists>r \<in> set (nodes (snd (ExpireExpiredNodes_nodes lc ns expired tx))).
       ID r = PeerChange_NodeID p \<and> due lc (snd (ExpireExpiredNodes_nodes lc ns expired tx)) r"
proof (induction ns arbitrary: expired tx)
  case Nil
  then show ?case by simp
next
  case (Cons n ns)
  let ?t1 = "snd (IsExpired tx n)"
  let ?now = "fst (time_Now ?t1)"
  let ?t2 = "snd (time_Now ?t1)"
  let ?t3 = "snd (Updates_Expiry ?t2 n ?now)"
  let ?patch = "\<lparr>PeerChange_NodeID = ID n, KeyExpiry = Expiry n\<rparr>"
  have c1: "clock tx \<le> clock ?t1" by (rule IsExpired_mono)
  show ?case
  proof (cases "fst (IsExpired tx n) \<and> After (Expiry n) lc")
    case True
    then obtain e where e: "Expiry n = Some e" "e < clock ?t1" "lc < e"
      using IsExpired_True [of tx n] by (auto simp: After_def)
    have now: "clock ?t1 \<le> ?now" by (rule time_Now_mono)
    have step: "nodes ?t3 = nodes tx \<or>
       nodes ?t3 = map (\<lambda>r. if ID r = ID n then r\<lparr>Expiry := Some ?now\<rparr> else r) (nodes tx)"
      using Updates_Expiry_nodes [of ?t2 n ?now] by simp
    have c3: "clock tx \<le> clock ?t3" "lc < ?now" "?now \<le> clock ?t3"
      using c1 now e by simp_all
    have backed: "\<forall>m \<in> set ns. \<exists>r \<in> set (nodes ?t3).
        ID r = ID m \<and> (Expiry r = Expiry m \<or> due lc ?t3 r)"
    proof
      fix m assume "m \<in> set ns"
      with Cons.prems(1) have "\<exists>r \<in> set (nodes tx). ID r = ID m \<and>
          ((True \<and> Expiry r = Expiry m) \<or> due lc tx r)"
        by simp
      from due_step [OF this step c3]
      show "\<exists>r \<in> set (nodes ?t3). ID r = ID m \<and> (Expiry r = Expiry m \<or> due lc ?t3 r)"
        by simp
    qed
    have rep: "\<forall>p \<in> set (expired @ [?patch]). \<exists>r \<in> set (nodes ?t3).
        ID r = PeerChange_NodeID p \<and> due lc ?t3 r"
    proof
      fix p assume p: "p \<in> set (expired @ [?patch])"
      show "\<exists>r \<in> set (nodes ?t3). ID r = PeerChange_NodeID p \<and> due lc ?t3 r"
      proof (cases "p \<in> set expired")
        case True
        with Cons.prems(2) have "\<exists>r \<in> set (nodes tx). ID r = PeerChange_NodeID p \<and>
            ((False \<and> Expiry r = None) \<or> due lc tx r)"
          by simp
        from due_step [OF this step c3] show ?thesis
          by simp
      next
        case False
        with p have pp: "p = ?patch" by simp
        from Cons.prems(1) have "\<exists>r \<in> set (nodes tx). ID r = ID n \<and>
            ((True \<and> Expiry r = Expiry n) \<or> due lc tx r)"
          by simp
        from due_step [OF this step c3] obtain r where
          r: "r \<in> set (nodes ?t3)" "ID r = ID n" "Expiry r = Expiry n \<or> due lc ?t3 r"
          by auto
        from r(3) e c3 now have "due lc ?t3 r"
          by (auto simp: due_def)
        with r pp show ?thesis by auto
      qed
    qed
    from Cons.IH [OF backed rep] True show ?thesis
      unfolding ExpireExpiredNodes_nodes_Cons by simp
  next
    case False
    have later: "due lc tx r \<Longrightarrow> due lc ?t1 r" for r
      using c1 by (auto intro: due_later)
    have backed: "\<forall>m \<in> set ns. \<exists>r \<in> set (nodes ?t1).
        ID r = ID m \<and> (Expiry r = Expiry m \<or> due lc ?t1 r)"
      using Cons.prems(1) later by fastforce
    have rep: "\<forall>p \<in> set expired. \<exists>r \<in> set (nodes ?t1).
        ID r = PeerChange_NodeID p \<and> due lc ?t1 r"
      using Cons.prems(2) later by fastforce
    from Cons.IH [OF backed rep] False show ?thesis
      unfolding ExpireExpiredNodes_nodes_Cons by auto
  qed
qed

lemma ExpireExpiredNodes_due:
  assumes "p \<in> set (ChangePatches (fst (snd (fst (ExpireExpiredNodes tx lc)))))"
  shows "\<exists>r \<in> set (nodes (snd (ExpireExpiredNodes tx lc))).
     ID r = PeerChange_NodeID p \<and> due lc (snd (ExpireExpiredNodes tx lc)) r"
proof -
  let ?t2 = "snd (gorm_op (snd (time_Now tx)))"
  let ?run = "ExpireExpiredNodes_nodes lc (map (preload ?t2) (nodes tx)) [] ?t2"
  from assms have ok: "\<not> fst (gorm_op (snd (time_Now tx)))" and p: "p \<in> set (fst ?run)"
    by (simp_all add: ExpireExpiredNodes_patches split: if_splits)
  have backed: "\<forall>n \<in> set (map (preload ?t2) (nodes tx)). \<exists>r \<in> set (nodes ?t2).
      ID r = ID n \<and> (Expiry r = Expiry n \<or> due lc ?t2 r)"
    by auto
  have rep: "\<forall>p \<in> set []. \<exists>r \<in> set (nodes ?t2). ID r = PeerChange_NodeID p \<and> due lc ?t2 r"
    by simp
  from ExpireExpiredNodes_nodes_due [OF backed rep] p
  show ?thesis
    using ok by (simp add: ExpireExpiredNodes_state)
qed

lemma ExpireExpiredNodes_again:
  assumes p: "p \<in> set (ChangePatches (fst (snd (fst (ExpireExpiredNodes tx lc)))))"
    and advanced: "clock (snd (ExpireExpiredNodes tx lc)) <
        fst (time_Now (snd (ExpireExpiredNodes tx lc)))"
    and listed: "\<not> fst (gorm_op (snd (time_Now (snd (ExpireExpiredNodes tx lc)))))"
  shows "\<exists>p' \<in> set (ChangePatches (fst (snd (fst
           (ExpireExpiredNodes (snd (ExpireExpiredNodes tx lc)) lc))))).
     PeerChange_NodeID p' = PeerChange_NodeID p"
proof -
  let ?tx1 = "snd (ExpireExpiredNodes tx lc)"
  from ExpireExpiredNodes_due [OF p] obtain r t where
    r: "r \<in> set (nodes ?tx1)" "ID r = PeerChange_NodeID p"
    and t: "Expiry r = Some t" "lc < t" "t \<le> clock ?tx1"
    by (auto simp: due_def split: option.splits)
  from t(3) advanced have "t < fst (time_Now ?tx1)" by simp
  from ExpireExpiredNodes_complete [OF listed r(1) t(1,2) this] r(2)
  show ?thesis by (intro bexI [of _ "\<lparr>PeerChange_NodeID = ID r, KeyExpiry = Some t\<rparr>"]) simp_all
qed

lemma time_Now_frozen: "ticks tx = [] \<Longrightarrow> time_Now tx = (clock tx, tx)"
  by (simp add: time_Now_def)

lemma IsExpired_frozen:
  "ticks tx = [] \<Longrightarrow>
   IsExpired tx n = ((case Expiry n of None \<Rightarrow> False | Some e \<Rightarrow> e < clock tx), tx)"
  by (simp add: IsExpired_def time_Now_frozen split: option.splits)

lemma IsExpired_frozen_state: "ticks tx = [] \<Longrightarrow> snd (IsExpired tx n) = tx"
  by (simp add: IsExpired_frozen)

lemma ExpireExpiredNodes_nodes_frozen_clock:
  "ticks tx = [] \<Longrightarrow>
   clock (snd (ExpireExpiredNodes_nodes lc ns expired tx)) = clock tx
   \<and> ticks (snd (ExpireExpiredNodes_nodes lc ns expired tx)) = []"
proof (induction ns arbitrary: expired tx)
  case Nil
  then show ?case by simp
next
  case (Cons n ns)
  let ?t3 = "snd (Updates_Expiry tx n (clock tx))"
  have "ticks ?t3 = []" "clock ?t3 = clock tx"
    using Cons.prems by simp_all
  with Cons.IH [of ?t3] Cons.IH [of tx] Cons.prems show ?case
    unfolding ExpireExpiredNodes_nodes_Cons
    by (simp add: IsExpired_frozen_state time_Now_frozen)
qed

lemma ExpireExpiredNodes_frozen_clock:
  assumes "ticks tx = []"
  shows "clock (snd (ExpireExpiredNodes tx lc)) = clock tx"
    and "ticks (snd (ExpireExpiredNodes tx lc)) = []"
proof -
  have "clock (snd (ExpireExpiredNodes tx lc)) = clock tx \<and>
      ticks (snd (ExpireExpiredNodes tx lc)) = []"
  proof (cases "fst (gorm_op (snd (time_Now tx)))")
    case True
    then show ?thesis
      using assms by (simp add: ExpireExpiredNodes_failed time_Now_frozen)
  next
    case False
    have "ticks (snd (gorm_op tx)) = []" using assms by simp
    from ExpireExpiredNodes_nodes_frozen_clock [OF this] False assms show ?thesis
      by (simp add: ExpireExpiredNodes_state time_Now_frozen)
  qed
  then show "clock (snd (ExpireExpiredNodes tx lc)) = clock tx"
    and "ticks (snd (ExpireExpiredNodes tx lc)) = []"
    by simp_all
qed

lemma Updates_Expiry_quiet:
  "faults tx = [] \<Longrightarrow> ID n \<noteq> 0 \<Longrightarrow>
   snd (Updates_Expiry tx n t) =
     tx\<lparr>nodes := map (\<lambda>r. if ID r = ID n then r\<lparr>Expiry := Some t\<rparr> else r) (nodes tx)\<rparr>"
  by (simp add: Updates_Expiry_def Update_where_id_def gorm_op_faults_Nil)

lemma qualifies_frozen:
  "ticks tx = [] \<Longrightarrow>
   (fst (IsExpired tx n) \<and> After (Expiry n) lc) = reportable lc (clock tx) n"
  by (auto simp: IsExpired_frozen After_def reportable_def split: option.splits)

lemma ExpireExpiredNodes_nodes_frozen:
  "ticks tx = [] \<Longrightarrow> faults tx = [] \<Longrightarrow> \<forall>n \<in> set ns. ID n \<noteq> 0 \<Longrightarrow>
   \<forall>r \<in> set (nodes tx). reportable lc (clock tx) r \<longrightarrow>
      (\<exists>n \<in> set ns. ID n = ID r \<and> reportable lc (clock tx) n) \<Longrightarrow>
   (\<forall>r \<in> set (nodes (snd (ExpireExpiredNodes_nodes lc ns expired tx))).
      \<not> reportable lc (clock tx) r)
   \<and> clock (snd (ExpireExpiredNodes_nodes lc ns expired tx)) = clock tx
   \<and> ticks (snd (ExpireExpiredNodes_nodes lc ns expired tx)) = []
   \<and> faults (snd (ExpireExpiredNodes_nodes lc ns expired tx)) = []"
proof (induction ns arbitrary: expired tx)
  case Nil
  then show ?case by simp
next
  case (Cons n ns)
  let ?c = "clock tx"
  let ?t3 = "tx\<lparr>nodes := map (\<lambda>r. if ID r = ID n then r\<lparr>Expiry := Some ?c\<rparr> else r) (nodes tx)\<rparr>"
  from Cons.prems(3) have nz: "ID n \<noteq> 0" and nzs: "\<forall>m \<in> set ns. ID m \<noteq> 0"
    by simp_all
  show ?case
  proof (cases "reportable lc ?c n")
    case True
    have step: "ExpireExpiredNodes_nodes lc (n # ns) expired tx =
        ExpireExpiredNodes_nodes lc ns
          (expired @ [\<lparr>PeerChange_NodeID = ID n, KeyExpiry = Expiry n\<rparr>]) ?t3"
      unfolding ExpireExpiredNodes_nodes_Cons
      using True Cons.prems(1,2) nz
      by (simp add: qualifies_frozen IsExpired_frozen_state time_Now_frozen Updates_Expiry_quiet)
    have k: "\<forall>r \<in> set (nodes ?t3). reportable lc (clock ?t3) r \<longrightarrow>
        (\<exists>m \<in> set ns. ID m = ID r \<and> reportable lc (clock ?t3) m)"
    proof (intro ballI impI)
      fix r assume r: "r \<in> set (nodes ?t3)" and rep: "reportable lc (clock ?t3) r"
      from r obtain r0 where r0: "r0 \<in> set (nodes tx)"
        and rr: "r = (if ID r0 = ID n then r0\<lparr>Expiry := Some ?c\<rparr> else r0)"
        by auto
      from rep rr have other: "ID r0 \<noteq> ID n" and same: "r = r0"
        by (auto simp: reportable_def split: if_splits)
      with rep r0 Cons.prems(4) obtain m where
        m: "m \<in> set (n # ns)" "ID m = ID r" "reportable lc ?c m"
        by auto
      with other same have "m \<in> set ns" by auto
      with m show "\<exists>m \<in> set ns. ID m = ID r \<and> reportable lc (clock ?t3) m"
        by auto
    qed
    from Cons.IH [of ?t3, OF _ _ nzs k] Cons.prems(1,2) show ?thesis
      unfolding step by simp
  next
    case False
    have step: "ExpireExpiredNodes_nodes lc (n # ns) expired tx =
        ExpireExpiredNodes_nodes lc ns expired tx"
      unfolding ExpireExpiredNodes_nodes_Cons
      using False Cons.prems(1)
      by (simp add: qualifies_frozen IsExpired_frozen_state)
    have k: "\<forall>r \<in> set (nodes tx). reportable lc ?c r \<longrightarrow>
        (\<exists>m \<in> set ns. ID m = ID r \<and> reportable lc ?c m)"
      using Cons.prems(4) False by auto
    from Cons.IH [OF Cons.prems(1,2) nzs k] show ?thesis
      unfolding step by simp
  qed
qed

lemma ExpireExpiredNodes_frozen:
  assumes t: "ticks tx = []" and f: "faults tx = []" and z: "\<forall>n \<in> set (nodes tx). ID n \<noteq> 0"
  shows "(\<forall>r \<in> set (nodes (snd (ExpireExpiredNodes tx lc))). \<not> reportable lc (clock tx) r)
     \<and> clock (snd (ExpireExpiredNodes tx lc)) = clock tx
     \<and> ticks (snd (ExpireExpiredNodes tx lc)) = []"
proof -
  have g: "snd (gorm_op (snd (time_Now tx))) = tx" "\<not> fst (gorm_op (snd (time_Now tx)))"
    using t f by (simp_all add: time_Now_frozen gorm_op_faults_Nil)
  have nz: "\<forall>n \<in> set (map (preload tx) (nodes tx)). ID n \<noteq> 0"
    using z by simp
  have k: "\<forall>r \<in> set (nodes tx). reportable lc (clock tx) r \<longrightarrow>
      (\<exists>n \<in> set (map (preload tx) (nodes tx)). ID n = ID r \<and> reportable lc (clock tx) n)"
    by (auto simp: reportable_def)
  from ExpireExpiredNodes_nodes_frozen [OF t f nz k, of "[]"]
  show ?thesis
    by (simp add: ExpireExpiredNodes_state g)
qed

lemma ExpireExpiredNodes_quiet_again:
  assumes t: "ticks tx = []" and f: "faults tx = []" and z: "\<forall>n \<in> set (nodes tx). ID n \<noteq> 0"
  shows "ChangePatches (fst (snd (fst
           (ExpireExpiredNodes (snd (ExpireExpiredNodes tx lc)) lc)))) = []"
proof -
  let ?tx1 = "snd (ExpireExpiredNodes tx lc)"
  let ?tx2 = "snd (ExpireExpiredNodes ?tx1 lc)"
  let ?ps = "ChangePatches (fst (snd (fst (ExpireExpiredNodes ?tx1 lc))))"
  from ExpireExpiredNodes_frozen [OF t f z, of lc]
  have none: "\<forall>r \<in> set (nodes ?tx1). \<not> reportable lc (clock tx) r"
    by simp
  have c: "clock ?tx2 = clock tx"
    using ExpireExpiredNodes_frozen_clock [OF t, of lc]
      ExpireExpiredNodes_frozen_clock(1) [of ?tx1 lc]
    by simp
  have "p \<notin> set ?ps" for p
  proof
    assume "p \<in> set ?ps"
    from ExpireExpiredNodes_sound [OF this] obtain n e where
      "n \<in> set (nodes ?tx1)" "Expiry n = Some e" "lc < e" "e < clock ?tx2"
      by blast
    with none c show False
      by (auto simp: reportable_def)
  qed
  then show ?thesis
    by (cases ?ps) auto
qed

lemma ExpireExpiredNodes_ok_flag:
  "snd (snd (fst (ExpireExpiredNodes tx lc))) =
     (ChangePatches (fst (snd (fst (ExpireExpiredNodes tx lc)))) \<noteq> [])"
  by (cases "fst (gorm_op (snd (time_Now tx)))")
    (simp_all add: ExpireExpiredNodes_failed ExpireExpiredNodes_listed Let_def StateUpdate_zero_def)

lemma expiring_second:
  "fst (ExpireExpiredNodes (snd (ExpireExpiredNodes expiring 0)) 0) =
     (11, StateUpdate_zero\<lparr>Type := StatePeerChangedPatch,
            ChangePatches := [\<lparr>PeerChange_NodeID = 1, KeyExpiry = Some 10\<rparr>]\<rparr>, True)"
  unfolding expiring_first by (simp add: ExpireExpiredNodes_eval)

text \<open>
  C5, as the code has it. Two runs of \<^verbatim>\<open>ExpireExpiredNodes\<close> with the same cursor, the
  second on the state the first left. When the clock has advanced at the first reading
  of the second run and its listing succeeds, every node of the first batch has a patch
  in the second batch again: the expiry the first run wrote (or left, where the write
  failed) is after the cursor and by then in the past. The second batch is empty when
  the clock does not move at all over both runs, no statement fails and no identifier
  is zero.
\<close>

theorem ExpireExpiredNodes_twice:
  assumes first: "ExpireExpiredNodes tx lastCheck = ((cursor1, update1, ok1), tx1)"
    and second: "ExpireExpiredNodes tx1 lastCheck = ((cursor2, update2, ok2), tx2)"
  shows
    "(clock tx1 < fst (time_Now tx1) \<and> \<not> fst (gorm_op (snd (time_Now tx1))) \<longrightarrow>
        (\<forall>p \<in> set (ChangePatches update1). \<exists>p' \<in> set (ChangePatches update2).
           PeerChange_NodeID p' = PeerChange_NodeID p))
     \<and> (ticks tx = [] \<and> faults tx = [] \<and> (\<forall>n \<in> set (nodes tx). ID n \<noteq> 0) \<longrightarrow>
          ChangePatches update2 = [] \<and> \<not> ok2)"
proof -
  from first have u1: "update1 = fst (snd (fst (ExpireExpiredNodes tx lastCheck)))"
    and t1: "tx1 = snd (ExpireExpiredNodes tx lastCheck)"
    by simp_all
  from second have u2: "update2 = fst (snd (fst (ExpireExpiredNodes tx1 lastCheck)))"
    and o2: "ok2 = snd (snd (fst (ExpireExpiredNodes tx1 lastCheck)))"
    by simp_all
  have again: "\<exists>p' \<in> set (ChangePatches update2). PeerChange_NodeID p' = PeerChange_NodeID p"
    if "clock tx1 < fst (time_Now tx1)" "\<not> fst (gorm_op (snd (time_Now tx1)))"
      "p \<in> set (ChangePatches update1)" for p
    using that ExpireExpiredNodes_again [of p tx lastCheck] unfolding u1 u2 t1
    by simp
  have quiet: "ChangePatches update2 = [] \<and> \<not> ok2"
    if "ticks tx = []" "faults tx = []" "\<forall>n \<in> set (nodes tx). ID n \<noteq> 0"
    using ExpireExpiredNodes_quiet_again [OF that, of lastCheck] unfolding u2 o2 t1
    by (simp add: ExpireExpiredNodes_ok_flag)
  from again quiet show ?thesis by blast
qed

theorem ExpireExpiredNodes_twice_witness:
  "(\<exists>p \<in> set (ChangePatches (fst (snd (fst (ExpireExpiredNodes expiring 0))))).
      PeerChange_NodeID p = 1)
   \<and> clock (snd (ExpireExpiredNodes expiring 0)) <
       fst (time_Now (snd (ExpireExpiredNodes expiring 0)))
   \<and> \<not> fst (gorm_op (snd (time_Now (snd (ExpireExpiredNodes expiring 0)))))
   \<and> (\<exists>p' \<in> set (ChangePatches (fst (snd (fst
          (ExpireExpiredNodes (snd (ExpireExpiredNodes expiring 0)) 0))))).
        PeerChange_NodeID p' = 1)
   \<and> ticks (expiring\<lparr>ticks := []\<rparr>) = [] \<and> faults (expiring\<lparr>ticks := []\<rparr>) = []
   \<and> 0 \<notin> ID ` set (nodes (expiring\<lparr>ticks := []\<rparr>))
   \<and> ChangePatches (fst (snd (fst
        (ExpireExpiredNodes (snd (ExpireExpiredNodes (expiring\<lparr>ticks := []\<rparr>) 0)) 0)))) = []"
proof -
  let ?tx1 = "snd (ExpireExpiredNodes expiring 0)"
  let ?frozen = "expiring\<lparr>ticks := []\<rparr>"
  let ?fx1 = "snd (ExpireExpiredNodes ?frozen 0)"
  have p: "\<lparr>PeerChange_NodeID = 1, KeyExpiry = Some 5\<rparr> \<in>
      set (ChangePatches (fst (snd (fst (ExpireExpiredNodes expiring 0)))))"
    by (simp add: expiring_first)
  have adv: "clock ?tx1 < fst (time_Now ?tx1)"
    and listed: "\<not> fst (gorm_op (snd (time_Now ?tx1)))"
    unfolding expiring_first
    by (simp_all add: time_Now_def gorm_op_def expiring_def State_zero_def)
  have fr: "ticks ?frozen = []" "faults ?frozen = []" "\<forall>n \<in> set (nodes ?frozen). ID n \<noteq> 0"
    by (simp_all add: expiring_def State_zero_def laptop_def Node_zero_def)
  obtain c1 u1 o1 t1 where r1: "ExpireExpiredNodes expiring 0 = ((c1, u1, o1), t1)"
    by (metis prod.exhaust)
  obtain c2 u2 o2 t2 where r2: "ExpireExpiredNodes t1 0 = ((c2, u2, o2), t2)"
    by (metis prod.exhaust)
  obtain d1 v1 q1 s1 where s1: "ExpireExpiredNodes ?frozen 0 = ((d1, v1, q1), s1)"
    by (metis prod.exhaust)
  obtain d2 v2 q2 s2 where s2: "ExpireExpiredNodes s1 0 = ((d2, v2, q2), s2)"
    by (metis prod.exhaust)
  from p r1 have p1: "\<lparr>PeerChange_NodeID = 1, KeyExpiry = Some 5\<rparr> \<in> set (ChangePatches u1)"
    by simp
  from adv listed r1 have h: "clock t1 < fst (time_Now t1)" "\<not> fst (gorm_op (snd (time_Now t1)))"
    by simp_all
  from ExpireExpiredNodes_twice [OF r1 r2] h
  have "\<forall>p \<in> set (ChangePatches u1). \<exists>p' \<in> set (ChangePatches u2).
      PeerChange_NodeID p' = PeerChange_NodeID p"
    by blast
  from bspec [OF this p1]
  have a: "\<exists>p' \<in> set (ChangePatches u2). PeerChange_NodeID p' = 1"
    by simp
  from ExpireExpiredNodes_twice [OF s1 s2] fr
  have b: "ChangePatches v2 = []"
    by blast
  from r1 r2 a have a': "\<exists>p' \<in> set (ChangePatches (fst (snd (fst
          (ExpireExpiredNodes (snd (ExpireExpiredNodes expiring 0)) 0))))).
        PeerChange_NodeID p' = 1"
    by simp
  from s1 s2 b have b': "ChangePatches (fst (snd (fst
        (ExpireExpiredNodes (snd (ExpireExpiredNodes (expiring\<lparr>ticks := []\<rparr>) 0)) 0)))) = []"
    by simp
  from fr(3) have z: "0 \<notin> ID ` set (nodes ?frozen)"
    by auto
  from p have p0: "\<exists>p \<in> set (ChangePatches (fst (snd (fst (ExpireExpiredNodes expiring 0))))).
      PeerChange_NodeID p = 1"
    by (intro bexI [of _ "\<lparr>PeerChange_NodeID = 1, KeyExpiry = Some 5\<rparr>"]) simp_all
  from p0 adv listed a' fr(1,2) z b' show ?thesis
    by blast
qed

text \<open>
  C5 as stated fails: node 1 is in the batch of the first run and, the clock having
  moved from 10 to 11, in the batch of the second run with the same cursor 0.
\<close>

theorem ExpireExpiredNodes_twice_counterexample:
  "ChangePatches (fst (snd (fst (ExpireExpiredNodes expiring 0)))) =
     [\<lparr>PeerChange_NodeID = 1, KeyExpiry = Some 5\<rparr>]
   \<and> ChangePatches (fst (snd (fst
        (ExpireExpiredNodes (snd (ExpireExpiredNodes expiring 0)) 0)))) =
     [\<lparr>PeerChange_NodeID = 1, KeyExpiry = Some 10\<rparr>]"
  unfolding expiring_second by (simp add: expiring_first)

subsection \<open>The ephemeral sweep\<close>

lemma ephemeral_condition_cong:
  "clock tx = clock tx' \<Longrightarrow> ticks tx = ticks tx' \<Longrightarrow>
   fst (ephemeral_condition thr tx n) = fst (ephemeral_condition thr tx' n)
   \<and> clock (snd (ephemeral_condition thr tx n)) = clock (snd (ephemeral_condition thr tx' n))
   \<and> ticks (snd (ephemeral_condition thr tx n)) = ticks (snd (ephemeral_condition thr tx' n))"
  using time_Now_cong [of tx tx']
  by (simp add: ephemeral_condition_def split_beta split: option.splits)

lemma ephemeral_condition_frame [simp]:
  "nodes (snd (ephemeral_condition thr tx n)) = nodes tx"
  "users (snd (ephemeral_condition thr tx n)) = users tx"
  "routes (snd (ephemeral_condition thr tx n)) = routes tx"
  "faults (snd (ephemeral_condition thr tx n)) = faults tx"
  by (simp_all add: ephemeral_condition_def split_beta split: option.splits)

lemma ephemeral_condition_preload [simp]:
  "ephemeral_condition thr tx (preload t n) = ephemeral_condition thr tx n"
  by (simp add: ephemeral_condition_def IsEphemeral_def)

lemma ephemeral_inactive_cong:
  "clock tx = clock tx' \<Longrightarrow> ticks tx = ticks tx' \<Longrightarrow>
   ephemeral_inactive thr ns tx = ephemeral_inactive thr ns tx'"
proof (induction ns arbitrary: tx tx')
  case Nil
  then show ?case by simp
next
  case (Cons n ns)
  from ephemeral_condition_cong [OF Cons.prems, of thr n]
  have a: "fst (ephemeral_condition thr tx n) = fst (ephemeral_condition thr tx' n)"
    and c: "clock (snd (ephemeral_condition thr tx n)) = clock (snd (ephemeral_condition thr tx' n))"
    and b: "ticks (snd (ephemeral_condition thr tx n)) = ticks (snd (ephemeral_condition thr tx' n))"
    by simp_all
  from Cons.IH [OF c b] a show ?case
    by simp
qed

lemma ephemeral_inactive_preload [simp]:
  "ephemeral_inactive thr (map (preload t) ns) tx = ephemeral_inactive thr ns tx"
  by (induction ns arbitrary: tx) simp_all

lemma deleteNodeRoutes_frame [simp]:
  "clock (snd (deleteNodeRoutes tx n)) = clock tx"
  "ticks (snd (deleteNodeRoutes tx n)) = ticks tx"
  "users (snd (deleteNodeRoutes tx n)) = users tx"
  "nodes (snd (deleteNodeRoutes tx n)) = nodes tx"
  by (simp_all add: deleteNodeRoutes_def split_beta)

lemma Delete_Node_frame [simp]:
  "clock (snd (Delete_Node tx n)) = clock tx"
  "ticks (snd (Delete_Node tx n)) = ticks tx"
  "users (snd (Delete_Node tx n)) = users tx"
  by (simp_all add: Delete_Node_def split_beta)

lemma Delete_Node_nodes:
  "nodes (snd (Delete_Node tx n)) =
     (if fst (Delete_Node tx n) = None then filter (\<lambda>r. ID r \<noteq> ID n) (nodes tx) else nodes tx)"
  by (simp add: Delete_Node_def split_beta)

lemma DeleteNode_frame [simp]:
  "clock (snd (DeleteNode tx n)) = clock tx"
  "ticks (snd (DeleteNode tx n)) = ticks tx"
  "users (snd (DeleteNode tx n)) = users tx"
  by (simp_all add: DeleteNode_def split: prod.splits option.splits)
    (metis Delete_Node_frame deleteNodeRoutes_frame snd_conv)+

lemma DeleteNode_nodes:
  "nodes (snd (DeleteNode tx n)) =
     (if fst (DeleteNode tx n) = None then filter (\<lambda>r. ID r \<noteq> ID n) (nodes tx) else nodes tx)"
proof (cases "deleteNodeRoutes tx n")
  case (Pair e tx1)
  then have n1: "nodes tx1 = nodes tx"
    using deleteNodeRoutes_frame(4) [of tx n] by simp
  show ?thesis
  proof (cases e)
    case None
    with Pair n1 show ?thesis
      by (simp add: DeleteNode_def Delete_Node_nodes)
  next
    case (Some err)
    with Pair n1 show ?thesis
      by (simp add: DeleteNode_def)
  qed
qed

lemma ExpireEphemeralNodes_nodes_Cons:
  "ExpireEphemeralNodes_nodes thr (n # ns) expired tx =
     (if fst (ephemeral_condition thr tx n)
      then ExpireEphemeralNodes_nodes thr ns (expired @ [ID n])
             (snd (DeleteNode (snd (ephemeral_condition thr tx n)) n))
      else ExpireEphemeralNodes_nodes thr ns expired (snd (ephemeral_condition thr tx n)))"
  by (simp add: split_beta Let_def)

lemma ExpireEphemeralNodes_nodes_expired:
  "fst (ExpireEphemeralNodes_nodes thr ns expired tx) = expired @ ephemeral_inactive thr ns tx"
proof (induction ns arbitrary: expired tx)
  case Nil
  then show ?case by simp
next
  case (Cons n ns)
  let ?t1 = "snd (ephemeral_condition thr tx n)"
  let ?t2 = "snd (DeleteNode ?t1 n)"
  have "ephemeral_inactive thr ns ?t2 = ephemeral_inactive thr ns ?t1"
    by (rule ephemeral_inactive_cong) simp_all
  with Cons.IH [of "expired @ [ID n]" ?t2] Cons.IH [of expired ?t1]
  show ?case
    unfolding ExpireEphemeralNodes_nodes_Cons by simp
qed

lemma ephemeral_inactive_append:
  "ephemeral_inactive thr (ns @ ms) tx =
     ephemeral_inactive thr ns tx @
     ephemeral_inactive thr ms (snd (ExpireEphemeralNodes_nodes thr ns expired tx))"
proof (induction ns arbitrary: expired tx)
  case Nil
  then show ?case by simp
next
  case (Cons n ns)
  let ?t1 = "snd (ephemeral_condition thr tx n)"
  let ?t2 = "snd (DeleteNode ?t1 n)"
  have c: "ephemeral_inactive thr xs ?t2 = ephemeral_inactive thr xs ?t1" for xs
    by (rule ephemeral_inactive_cong) simp_all
  from Cons.IH [of ?t2 "expired @ [ID n]"] Cons.IH [of ?t1 expired]
  show ?case
    unfolding ExpireEphemeralNodes_nodes_Cons by (simp add: c)
qed

lemma ExpireEphemeralNodes_nodes_frame [simp]:
  "users (snd (ExpireEphemeralNodes_nodes thr ns expired tx)) = users tx"
proof (induction ns arbitrary: expired tx)
  case Nil
  then show ?case by simp
next
  case (Cons n ns)
  from Cons.IH [of "expired @ [ID n]" "snd (DeleteNode (snd (ephemeral_condition thr tx n)) n)"]
    Cons.IH [of expired "snd (ephemeral_condition thr tx n)"]
  show ?case
    unfolding ExpireEphemeralNodes_nodes_Cons by simp
qed

lemma ExpireEphemeralNodes_nodes_deleted:
  "\<exists>D. D \<subseteq> ID ` set ns \<and>
     nodes (snd (ExpireEphemeralNodes_nodes thr ns expired tx)) =
       filter (\<lambda>r. ID r \<notin> D) (nodes tx)"
proof (induction ns arbitrary: expired tx)
  case Nil
  have "nodes tx = filter (\<lambda>r. ID r \<notin> {}) (nodes tx)" by simp
  then show ?case by auto
next
  case (Cons n ns)
  let ?t1 = "snd (ephemeral_condition thr tx n)"
  let ?t2 = "snd (DeleteNode ?t1 n)"
  have widen: "\<exists>D. D \<subseteq> ID ` set (n # ns) \<and> nodes s = filter (\<lambda>r. ID r \<notin> D) (nodes tx)"
    if "\<exists>D. D \<subseteq> ID ` set ns \<and> nodes s = filter (\<lambda>r. ID r \<notin> D) (nodes tx)" for s
    using that by auto
  show ?case
  proof (cases "fst (ephemeral_condition thr tx n)")
    case False
    from Cons.IH [of expired ?t1] have
      "\<exists>D. D \<subseteq> ID ` set ns \<and>
         nodes (snd (ExpireEphemeralNodes_nodes thr ns expired ?t1)) =
           filter (\<lambda>r. ID r \<notin> D) (nodes tx)"
      by simp
    from widen [OF this] False show ?thesis
      unfolding ExpireEphemeralNodes_nodes_Cons by simp
  next
    case True
    from Cons.IH [of "expired @ [ID n]" ?t2] obtain D where
      D: "D \<subseteq> ID ` set ns"
      and n2: "nodes (snd (ExpireEphemeralNodes_nodes thr ns (expired @ [ID n]) ?t2)) =
          filter (\<lambda>r. ID r \<notin> D) (nodes ?t2)"
      by blast
    have "nodes ?t2 = nodes tx \<or> nodes ?t2 = filter (\<lambda>r. ID r \<noteq> ID n) (nodes tx)"
      by (simp add: DeleteNode_nodes)
    then have "\<exists>E. E \<subseteq> ID ` set (n # ns) \<and>
        filter (\<lambda>r. ID r \<notin> D) (nodes ?t2) = filter (\<lambda>r. ID r \<notin> E) (nodes tx)"
    proof
      assume "nodes ?t2 = nodes tx"
      with D show ?thesis by (intro exI [of _ D]) auto
    next
      assume "nodes ?t2 = filter (\<lambda>r. ID r \<noteq> ID n) (nodes tx)"
      then have "filter (\<lambda>r. ID r \<notin> D) (nodes ?t2) =
          filter (\<lambda>r. ID r \<notin> insert (ID n) D) (nodes tx)"
        by (auto intro: filter_cong)
      with D show ?thesis by (intro exI [of _ "insert (ID n) D"]) auto
    qed
    with n2 True show ?thesis
      unfolding ExpireEphemeralNodes_nodes_Cons by simp
  qed
qed

lemma ExpireEphemeralNodes_nodes_clock:
  "clock tx = clock s \<Longrightarrow> ticks tx = ticks s \<Longrightarrow>
   clock (snd (ExpireEphemeralNodes_nodes thr ns expired tx)) =
     clock (snd (ExpireEphemeralNodes_nodes thr (map (preload t) ns) expired' s))
   \<and> ticks (snd (ExpireEphemeralNodes_nodes thr ns expired tx)) =
     ticks (snd (ExpireEphemeralNodes_nodes thr (map (preload t) ns) expired' s))"
proof (induction ns arbitrary: expired expired' tx s)
  case Nil
  then show ?case by simp
next
  case (Cons n ns)
  from ephemeral_condition_cong [OF Cons.prems, of thr n]
  have a: "fst (ephemeral_condition thr tx n) = fst (ephemeral_condition thr s n)"
    and c: "clock (snd (ephemeral_condition thr tx n)) = clock (snd (ephemeral_condition thr s n))"
    and b: "ticks (snd (ephemeral_condition thr tx n)) = ticks (snd (ephemeral_condition thr s n))"
    by simp_all
  let ?t1 = "snd (ephemeral_condition thr tx n)"
  let ?s1 = "snd (ephemeral_condition thr s n)"
  have c2: "clock (snd (DeleteNode ?t1 n)) = clock (snd (DeleteNode ?s1 (preload t n)))"
    and b2: "ticks (snd (DeleteNode ?t1 n)) = ticks (snd (DeleteNode ?s1 (preload t n)))"
    using c b by simp_all
  from Cons.IH [OF c b] Cons.IH [OF c2 b2] a show ?case
    unfolding list.map ExpireEphemeralNodes_nodes_Cons by simp
qed

lemma find_distinct:
  "distinct (map f xs) \<Longrightarrow> x \<in> set xs \<Longrightarrow> find (\<lambda>y. f y = f x) xs = Some x"
  by (induction xs) (auto simp: image_iff)

lemma GetUser_eq:
  "GetUser tx name =
     (if fst (gorm_op tx) then Inl ErrStorage
      else case find (\<lambda>u. User_Name u = name) (users tx) of
             None \<Rightarrow> Inl ErrUserNotFound | Some user \<Rightarrow> Inr user,
      snd (gorm_op tx))"
  by (simp add: GetUser_def split_beta split: option.splits)

lemma ListNodesByUser_Inr:
  assumes names: "distinct (map User_Name (users tx))" and u: "u \<in> set (users tx)"
    and l: "ListNodesByUser tx (User_Name u) = (Inr found, tx1)"
  shows "found = map (preload tx1) (filter (\<lambda>n. UserID n = User_ID u) (nodes tx))"
    and "nodes tx1 = nodes tx" and "users tx1 = users tx"
    and "clock tx1 = clock tx" and "ticks tx1 = ticks tx"
proof -
  from find_distinct [OF names u]
  have f: "find (\<lambda>y. User_Name y = User_Name u) (users tx) = Some u" .
  from l have "found = map (preload tx1) (filter (\<lambda>n. UserID n = User_ID u) (nodes tx))
      \<and> nodes tx1 = nodes tx \<and> users tx1 = users tx \<and> clock tx1 = clock tx \<and> ticks tx1 = ticks tx"
    by (auto simp: ListNodesByUser_def GetUser_eq f split_beta split: if_splits)
  then show "found = map (preload tx1) (filter (\<lambda>n. UserID n = User_ID u) (nodes tx))"
    and "nodes tx1 = nodes tx" and "users tx1 = users tx"
    and "clock tx1 = clock tx" and "ticks tx1 = ticks tx"
    by simp_all
qed

lemma ExpireEphemeralNodes_users_Cons:
  assumes "ExpireEphemeralNodes_users thr (u # us) expired tx = (Some expired', tx')"
  obtains found tx1 where
    "ListNodesByUser tx (User_Name u) = (Inr found, tx1)"
    "ExpireEphemeralNodes_users thr us
       (fst (ExpireEphemeralNodes_nodes thr found expired tx1))
       (snd (ExpireEphemeralNodes_nodes thr found expired tx1)) = (Some expired', tx')"
proof (cases "ListNodesByUser tx (User_Name u)")
  case (Pair r tx1)
  with assms obtain found where "r = Inr found"
    by (cases r) auto
  with Pair assms that show thesis
    by (simp add: split_beta)
qed

lemma ExpireEphemeralNodes_users_expired:
  assumes ids: "distinct (map ID N0)"
  shows "distinct (map User_Name (users tx)) \<Longrightarrow> distinct (map User_ID us) \<Longrightarrow>
    set us \<subseteq> set (users tx) \<Longrightarrow>
    nodes tx = filter (\<lambda>r. ID r \<notin> D) N0 \<Longrightarrow>
    D \<subseteq> ID ` {n \<in> set N0. UserID n \<notin> User_ID ` set us} \<Longrightarrow>
    ExpireEphemeralNodes_users thr us expired tx = (Some expired', tx') \<Longrightarrow>
    expired' = expired @
      ephemeral_inactive thr
        (concat (map (\<lambda>u. filter (\<lambda>n. UserID n = User_ID u) N0) us)) tx"
proof (induction us arbitrary: expired tx D)
  case Nil
  then show ?case by simp
next
  case (Cons u us)
  let ?L = "filter (\<lambda>n. UserID n = User_ID u) N0"
  from Cons.prems(3) have u: "u \<in> set (users tx)" and us: "set us \<subseteq> set (users tx)"
    by simp_all
  from Cons.prems(2) have du: "User_ID u \<notin> User_ID ` set us" and dus: "distinct (map User_ID us)"
    by simp_all
  from Cons.prems(6) obtain found tx1 where
    l: "ListNodesByUser tx (User_Name u) = (Inr found, tx1)"
    and rest: "ExpireEphemeralNodes_users thr us
       (fst (ExpireEphemeralNodes_nodes thr found expired tx1))
       (snd (ExpireEphemeralNodes_nodes thr found expired tx1)) = (Some expired', tx')"
    by (rule ExpireEphemeralNodes_users_Cons)
  note lst = ListNodesByUser_Inr [OF Cons.prems(1) u l]
  have kept: "ID r \<notin> D" if "r \<in> set N0" "UserID r = User_ID u" for r
  proof
    assume "ID r \<in> D"
    with Cons.prems(5) obtain n where n: "n \<in> set N0" "ID n = ID r"
      "UserID n \<notin> User_ID ` set (u # us)"
      by auto
    from ids n(1) that(1) n(2) have "n = r"
      by (meson distinct_map inj_on_def)
    with n(3) that(2) show False by simp
  qed
  have own: "filter (\<lambda>n. UserID n = User_ID u) (nodes tx) = ?L"
    unfolding Cons.prems(4) filter_filter
    by (rule filter_cong) (auto dest: kept)
  with lst(1) have found: "found = map (preload tx1) ?L" by simp
  let ?run = "ExpireEphemeralNodes_nodes thr found expired tx1"
  have e1: "fst ?run = expired @ ephemeral_inactive thr ?L tx"
    unfolding found ExpireEphemeralNodes_nodes_expired ephemeral_inactive_preload
    using ephemeral_inactive_cong [OF lst(4,5)] by simp
  from ExpireEphemeralNodes_nodes_deleted [of found thr expired tx1] obtain D' where
    D': "D' \<subseteq> ID ` set found" and n2: "nodes (snd ?run) = filter (\<lambda>r. ID r \<notin> D') (nodes tx1)"
    by blast
  have n2': "nodes (snd ?run) = filter (\<lambda>r. ID r \<notin> D \<union> D') N0"
    unfolding n2 lst(2) Cons.prems(4) filter_filter by (rule filter_cong) auto
  have sub: "D \<union> D' \<subseteq> ID ` {n \<in> set N0. UserID n \<notin> User_ID ` set us}"
  proof
    fix i assume "i \<in> D \<union> D'"
    then show "i \<in> ID ` {n \<in> set N0. UserID n \<notin> User_ID ` set us}"
    proof
      assume "i \<in> D"
      with Cons.prems(5) show ?thesis by auto
    next
      assume "i \<in> D'"
      with D' found obtain n where "n \<in> set ?L" "i = ID n"
        by auto
      with du show ?thesis by auto
    qed
  qed
  have names: "distinct (map User_Name (users (snd ?run)))"
    and us': "set us \<subseteq> set (users (snd ?run))"
    using Cons.prems(1) us lst(3) by simp_all
  from Cons.IH [OF names dus us' n2' sub rest]
  have "expired' = fst ?run @
      ephemeral_inactive thr (concat (map (\<lambda>u. filter (\<lambda>n. UserID n = User_ID u) N0) us)) (snd ?run)" .
  moreover have "ephemeral_inactive thr xs (snd ?run) =
      ephemeral_inactive thr xs (snd (ExpireEphemeralNodes_nodes thr ?L [] tx))" for xs
    unfolding found
    using ExpireEphemeralNodes_nodes_clock [OF lst(4,5) [symmetric], of thr ?L "[]" tx1 expired]
    by (intro ephemeral_inactive_cong) simp_all
  ultimately show ?case
    using e1 ephemeral_inactive_append [of thr ?L _ tx "[]"] by simp
qed

lemma ListUsers_eq:
  "ListUsers tx = (if fst (gorm_op tx) then Inl ErrStorage else Inr (users tx), snd (gorm_op tx))"
  by (simp add: ListUsers_def split_beta)

lemma ExpireEphemeralNodes_True:
  assumes "ExpireEphemeralNodes tx thr = ((update, True), tx')"
  obtains expired where
    "ExpireEphemeralNodes_users thr (users tx) [] (snd (gorm_op tx)) = (Some expired, tx')"
    "expired \<noteq> []" "update = StateUpdate_zero\<lparr>Type := StatePeerRemoved, Removed := expired\<rparr>"
proof (cases "ExpireEphemeralNodes_users thr (users tx) [] (snd (gorm_op tx))")
  case (Pair r tx2)
  from assms have ok: "\<not> fst (gorm_op tx)"
    by (auto simp: ExpireEphemeralNodes_def ListUsers_eq split: if_splits)
  with assms Pair obtain expired where "r = Some expired"
    by (cases r) (auto simp: ExpireEphemeralNodes_def ListUsers_eq)
  with assms Pair ok that show thesis
    by (auto simp: ExpireEphemeralNodes_def ListUsers_eq split: if_splits)
qed

lemma DeleteNode_failed:
  "fst (DeleteNode s m) \<noteq> None \<Longrightarrow> nodes (snd (DeleteNode s m)) = nodes s"
  by (auto simp: DeleteNode_nodes)

text \<open>
  C10. In a registry whose node identifiers, user names and user identifiers are
  distinct, whenever \<^verbatim>\<open>ExpireEphemeralNodes\<close> returns an update it is a \<^verbatim>\<open>PeerRemoved\<close>
  event whose list is not empty and holds, user by user and in listing order, the
  identifier of every node that met the ephemeral-inactivity condition when the sweep
  tested it. The list is a function of the nodes, the users and the clock alone: no
  outcome of a deletion enters it, because the identifier is appended before
  \<^verbatim>\<open>DeleteNode\<close> is called. A \<^verbatim>\<open>DeleteNode\<close> that returns an error leaves the node table
  as it was, so a node whose deletion failed is in the list and still in the registry.
\<close>

theorem ExpireEphemeralNodes_removed:
  assumes ids: "distinct (map ID (nodes tx))"
    and names: "distinct (map User_Name (users tx))"
    and uids: "distinct (map User_ID (users tx))"
    and run: "ExpireEphemeralNodes tx inactivityThreshhold = ((update, True), tx')"
  shows
    "Type update = StatePeerRemoved
     \<and> Removed update =
         ephemeral_inactive inactivityThreshhold
           (concat (map (\<lambda>u. filter (\<lambda>n. UserID n = User_ID u) (nodes tx)) (users tx))) tx
     \<and> Removed update \<noteq> []
     \<and> (\<forall>s m. fst (DeleteNode s m) \<noteq> None \<longrightarrow> nodes (snd (DeleteNode s m)) = nodes s)"
proof -
  let ?t1 = "snd (gorm_op tx)"
  from run obtain expired where
    loop: "ExpireEphemeralNodes_users inactivityThreshhold (users tx) [] ?t1 = (Some expired, tx')"
    and ne: "expired \<noteq> []"
    and u: "update = StateUpdate_zero\<lparr>Type := StatePeerRemoved, Removed := expired\<rparr>"
    by (rule ExpireEphemeralNodes_True)
  have n0: "nodes ?t1 = filter (\<lambda>r. ID r \<notin> {}) (nodes tx)"
    by simp
  have "expired = [] @
      ephemeral_inactive inactivityThreshhold
        (concat (map (\<lambda>u. filter (\<lambda>n. UserID n = User_ID u) (nodes tx)) (users tx))) ?t1"
    by (rule ExpireEphemeralNodes_users_expired [OF ids _ uids _ n0 _ loop])
      (simp_all add: names)
  moreover have "ephemeral_inactive inactivityThreshhold xs ?t1 =
      ephemeral_inactive inactivityThreshhold xs tx" for xs
    by (rule ephemeral_inactive_cong) simp_all
  ultimately have "expired =
      ephemeral_inactive inactivityThreshhold
        (concat (map (\<lambda>u. filter (\<lambda>n. UserID n = User_ID u) (nodes tx)) (users tx))) tx"
    by simp
  with ne u DeleteNode_failed show ?thesis
    by (simp add: StateUpdate_zero_def)
qed

lemmas visited_defs =
  visited_def visitor_def registered_def laptop_def alice_def Node_zero_def State_zero_def

lemma visited_users:
  "ListUsers visited = (Inr [alice], visited\<lparr>faults := [False, False, True]\<rparr>)"
  by (simp add: ListUsers_eq gorm_op_def visited_def State_zero_def)

lemma visited_nodes:
  "ListNodesByUser (visited\<lparr>faults := [False, False, True]\<rparr>) (User_Name alice) =
     (Inr [registered, visitor], visited\<lparr>faults := [True]\<rparr>)"
  by (simp add: ListNodesByUser_def GetUser_eq gorm_op_def preload_def visited_defs)

lemma visited_conditions:
  "ephemeral_condition 5 (visited\<lparr>faults := [True]\<rparr>) registered =
     (False, visited\<lparr>faults := [True]\<rparr>)"
  "ephemeral_condition 5 (visited\<lparr>faults := [True]\<rparr>) visitor =
     (True, visited\<lparr>faults := [True]\<rparr>)"
  by (simp_all add: ephemeral_condition_def IsEphemeral_def After_def time_Now_def visited_defs)

lemma visited_delete:
  "DeleteNode (visited\<lparr>faults := [True]\<rparr>) visitor = (Some ErrStorage, visited\<lparr>faults := []\<rparr>)"
  by (simp add: DeleteNode_def deleteNodeRoutes_def gorm_op_def visited_def State_zero_def)

lemma visited_swept:
  "ExpireEphemeralNodes visited 5 =
     ((StateUpdate_zero\<lparr>Type := StatePeerRemoved, Removed := [ID visitor]\<rparr>, True),
      visited\<lparr>faults := []\<rparr>)"
  by (simp add: ExpireEphemeralNodes_def visited_users visited_nodes visited_conditions
      visited_delete)

theorem ExpireEphemeralNodes_removed_witness:
  "distinct (map ID (nodes visited)) \<and> distinct (map User_Name (users visited))
   \<and> distinct (map User_ID (users visited))
   \<and> fst (ExpireEphemeralNodes visited 5) =
       (StateUpdate_zero\<lparr>Type := StatePeerRemoved, Removed := [ID visitor]\<rparr>, True)
   \<and> ephemeral_inactive 5 [registered, visitor] visited = [ID visitor]
   \<and> visitor \<in> set (nodes (snd (ExpireEphemeralNodes visited 5)))
   \<and> ID visitor \<in> set (Removed (fst (fst (ExpireEphemeralNodes visited 5))))"
proof -
  have w: "distinct (map ID (nodes visited))" "distinct (map User_Name (users visited))"
    "distinct (map User_ID (users visited))"
    by (simp_all add: visited_defs)
  have l: "concat (map (\<lambda>u. filter (\<lambda>n. UserID n = User_ID u) (nodes visited)) (users visited)) =
      [registered, visitor]"
    by (simp add: visited_defs)
  from ExpireEphemeralNodes_removed [OF w visited_swept, unfolded l]
  have r: "ephemeral_inactive 5 [registered, visitor] visited = [ID visitor]"
    by simp
  have v: "visitor \<in> set (nodes (visited\<lparr>faults := []\<rparr>))"
    by (simp add: visited_def State_zero_def)
  from w r v show ?thesis
    unfolding visited_swept by simp
qed

end
